theory Spec2Isabelle
  imports Main
begin

section \<open>Strings\<close>

text \<open>
  A JavaScript string is a sequence of UTF-16 code units. A code unit is modelled as a
  natural number, so that the non-ASCII white space which \<^verbatim>\<open>String.prototype.trim\<close>
  removes (U+00A0, U+2028, U+FEFF, ...) is a single element, as it is in the program.
  \<open>js\<close> turns an ASCII literal of the theory into such a string.
\<close>

type_synonym jsstr = "nat list"

definition js :: "string \<Rightarrow> jsstr" where
  "js cs = map of_char cs"

text \<open>
  \<^verbatim>\<open>String.prototype.trim\<close> removes from both ends the code units that ECMAScript counts
  as white space or as line terminators: TAB, LF, VT, FF, CR, SPACE, NBSP, U+1680,
  U+2000 to U+200A, U+2028, U+2029, U+202F, U+205F, U+3000 and U+FEFF.
\<close>

definition isWhiteSpace :: "nat \<Rightarrow> bool" where
  "isWhiteSpace c \<longleftrightarrow>
     (9 \<le> c \<and> c \<le> 13) \<or> c = 32 \<or> c = 160 \<or> c = 5760 \<or> (8192 \<le> c \<and> c \<le> 8202) \<or>
     c = 8232 \<or> c = 8233 \<or> c = 8239 \<or> c = 8287 \<or> c = 12288 \<or> c = 65279"

definition trim :: "jsstr \<Rightarrow> jsstr" where
  "trim s = rev (dropWhile isWhiteSpace (rev (dropWhile isWhiteSpace s)))"

text \<open>
  \<^verbatim>\<open>String.prototype.toLowerCase\<close>, exact on the ASCII letters and the identity on every
  other code unit. The program only compares the result with \<^verbatim>\<open>"y"\<close> and \<^verbatim>\<open>"yes"\<close>,
  and the Unicode lower-case mapping sends no code point other than \<^verbatim>\<open>Y\<close>, \<^verbatim>\<open>E\<close>, \<^verbatim>\<open>S\<close>
  (and the three letters themselves) to \<^verbatim>\<open>y\<close>, \<^verbatim>\<open>e\<close>, \<^verbatim>\<open>s\<close>, so both comparisons have
  the answer they have in the program.
\<close>

definition toLowerCase :: "jsstr \<Rightarrow> jsstr" where
  "toLowerCase s = map (\<lambda>c. if 65 \<le> c \<and> c \<le> 90 then c + 32 else c) s"

text \<open>
  \<^verbatim>\<open>s.split(sep)\<close> for a separator of one code unit: the pieces between the separators,
  an empty string giving one empty piece. The last case of the inner \<open>case\<close> is never
  reached, the result of a split being non-empty.
\<close>

fun split :: "nat \<Rightarrow> jsstr \<Rightarrow> jsstr list" where
  "split sep [] = [[]]"
| "split sep (c # cs) =
     (if c = sep then [] # split sep cs
      else (case split sep cs of piece # pieces \<Rightarrow> (c # piece) # pieces | [] \<Rightarrow> [[c]]))"

text \<open>\<^verbatim>\<open>s.startsWith(p)\<close>, \<^verbatim>\<open>s.includes(p)\<close>, \<^verbatim>\<open>s.substring(n)\<close> and \<^verbatim>\<open>xs.join(sep)\<close>.\<close>

definition startsWith :: "jsstr \<Rightarrow> jsstr \<Rightarrow> bool" where
  "startsWith s p \<longleftrightarrow> take (length p) s = p"

fun includes_str :: "jsstr \<Rightarrow> jsstr \<Rightarrow> bool" where
  "includes_str [] p \<longleftrightarrow> p = []"
| "includes_str (c # cs) p \<longleftrightarrow> startsWith (c # cs) p \<or> includes_str cs p"

definition substring :: "jsstr \<Rightarrow> nat \<Rightarrow> jsstr" where
  "substring s n = drop n s"

fun join :: "jsstr list \<Rightarrow> jsstr \<Rightarrow> jsstr" where
  "join [] sep = []"
| "join [x] sep = x"
| "join (x # y # ys) sep = x @ sep @ join (y # ys) sep"

text \<open>The decimal digits of a number, as a template literal prints it.\<close>

fun toString_nat :: "nat \<Rightarrow> jsstr" where
  "toString_nat n = (if n < 10 then [48 + n] else toString_nat (n div 10) @ [48 + n mod 10])"

section \<open>Label validation\<close>

text \<open>
  \<^verbatim>\<open>/^[a-zA-Z0-9_-]+$/.test(label)\<close>: the regular expression has no flags, so \<^verbatim>\<open>^\<close> and
  \<^verbatim>\<open>$\<close> match only at the two ends of the input and the class holds exactly the listed
  ASCII code units. The test is: at least one code unit, and each one in the class.
\<close>

definition labelChar :: "nat \<Rightarrow> bool" where
  "labelChar c \<longleftrightarrow>
     (97 \<le> c \<and> c \<le> 122) \<or> (65 \<le> c \<and> c \<le> 90) \<or> (48 \<le> c \<and> c \<le> 57) \<or> c = 95 \<or> c = 45"

definition labelRegexTest :: "jsstr \<Rightarrow> bool" where
  "labelRegexTest label \<longleftrightarrow> label \<noteq> [] \<and> list_all labelChar label"

text \<open>
  The alphabet of the specification's \<^verbatim>\<open>[A-Za-z0-9_-]\<close>, written out.
\<close>

definition labelAlphabet :: "jsstr" where
  "labelAlphabet = js ''ABCDEFGHIJKLMNOPQRSTUVWXYZabcdefghijklmnopqrstuvwxyz0123456789_-''"

section \<open>Port allocator\<close>

text \<open>
  An exception object: \<open>ShellError code\<close> is what Bun's shell template \<^verbatim>\<open>$\<close> throws for
  a command that exits with a non-zero status, \<open>Error msg\<close> is \<^verbatim>\<open>new Error(msg)\<close> (or
  any other thrown value, with its message).
\<close>

datatype exn = ShellError nat | Error jsstr

text \<open>
  \<^verbatim>\<open>isPortAvailable(port)\<close> opens a TCP connection to localhost: the port is available
  when the connection fails. The occupancy of the machine is the parameter
  \<open>avail :: nat \<Rightarrow> bool\<close>; each call is recorded in the list of probed ports.

  \<^verbatim>\<open>findAvailablePort\<close> (src/index.ts, lines 89-99):
  \<^verbatim>\<open>
  for (let port = 3002; port < 4000; port++) {
    const isAvailable = await isPortAvailable(port);
    if (isAvailable) { return port; }
  }
  throw new Error("No port available in range 3002-4000");
  \<close>
\<close>

function findAvailablePort_from :: "(nat \<Rightarrow> bool) \<Rightarrow> nat \<Rightarrow> nat list \<Rightarrow> (exn + nat) \<times> nat list" where
  "findAvailablePort_from avail port probed =
     (if port < 4000 then
        (let isAvailable = avail port; probed' = probed @ [port] in
         if isAvailable then (Inr port, probed')
         else findAvailablePort_from avail (port + 1) probed')
      else (Inl (Error (js ''No port available in range 3002-4000'')), probed))"
  by pat_completeness auto
termination
  by (relation "measure (\<lambda>(avail, port, probed). 4000 - port)") auto

definition findAvailablePort :: "(nat \<Rightarrow> bool) \<Rightarrow> (exn + nat) \<times> nat list" where
  "findAvailablePort avail = findAvailablePort_from avail 3002 []"

text \<open>
  The result of the earlier, adjacent-pair allocator.
\<close>

record ports =
  adminPort :: nat
  webhookPort :: nat

text \<open>
  \<^verbatim>\<open>findAvailablePorts\<close> (the two earlier revisions of the script, lines 39-53 and 78-92,
  the same text in both):
  \<^verbatim>\<open>
  for (let port = 3002; port < 4000; port++) {
    const webhookAvailable = await isPortAvailable(port);
    const adminAvailable = await isPortAvailable(port + 1);
    if (adminAvailable && webhookAvailable) {
      return { adminPort: port + 1, webhookPort: port };
    }
  }
  throw new Error("No adjacent ports available in range 3002-4000");
  \<close>
  Both ports are probed at every candidate, whatever the first probe answers.
\<close>

function findAvailablePorts_from :: "(nat \<Rightarrow> bool) \<Rightarrow> nat \<Rightarrow> nat list \<Rightarrow> (exn + ports) \<times> nat list" where
  "findAvailablePorts_from avail port probed =
     (if port < 4000 then
        (let webhookAvailable = avail port;
             adminAvailable = avail (port + 1);
             probed' = probed @ [port, port + 1] in
         if adminAvailable \<and> webhookAvailable
         then (Inr \<lparr>adminPort = port + 1, webhookPort = port\<rparr>, probed')
         else findAvailablePorts_from avail (port + 1) probed')
      else (Inl (Error (js ''No adjacent ports available in range 3002-4000'')), probed))"
  by pat_completeness auto
termination
  by (relation "measure (\<lambda>(avail, port, probed). 4000 - port)") auto

definition findAvailablePorts :: "(nat \<Rightarrow> bool) \<Rightarrow> (exn + ports) \<times> nat list" where
  "findAvailablePorts avail = findAvailablePorts_from avail 3002 []"

text \<open>
  The ports probed by a pair scan over the candidates \<open>ps\<close>, in order.
\<close>

fun pair_probes :: "nat list \<Rightarrow> nat list" where
  "pair_probes [] = []"
| "pair_probes (p # ps) = p # (p + 1) # pair_probes ps"

section \<open>The external world\<close>

text \<open>
  The program drives git, zellij, cp and bun through Bun's shell template \<^verbatim>\<open>$\<close>. Each
  command line of the source is a constructor:
  \<^item> \<open>GitLog b\<close>: \<^verbatim>\<open>git log main..${b} --oneline\<close>
  \<^item> \<open>GitWorktreeList\<close>: \<^verbatim>\<open>git worktree list --porcelain\<close>
  \<^item> \<open>GitCheckoutMain\<close>: \<^verbatim>\<open>git checkout main\<close>
  \<^item> \<open>GitRevList l\<close>: \<^verbatim>\<open>git rev-list main..${l}\<close>
  \<^item> \<open>GitCherryPick c\<close>: \<^verbatim>\<open>git cherry-pick ${c}\<close>
  \<^item> \<open>GitWorktreeRemove p\<close>: \<^verbatim>\<open>git worktree remove ${p} --force\<close>
  \<^item> \<open>GitBranchDelete l\<close>: \<^verbatim>\<open>git branch -D ${l}\<close>
  \<^item> \<open>ZellijDeleteSession n\<close>: \<^verbatim>\<open>zellij delete-session ${n}\<close>
  \<^item> \<open>GitWorktreeAdd p l\<close>: \<^verbatim>\<open>git worktree add ${p} -b ${l}\<close>
  \<^item> \<open>CopyLocal p\<close>: \<^verbatim>\<open>cp -r local ${p}/local\<close>
  \<^item> \<open>BunInstall p\<close>: \<^verbatim>\<open>cd ${p} && bun install\<close>
  \<^item> \<open>ZellijListSessions\<close>: \<^verbatim>\<open>zellij list-sessions -ns\<close>
\<close>

datatype cmd =
    GitLog jsstr
  | GitWorktreeList
  | GitCheckoutMain
  | GitRevList jsstr
  | GitCherryPick jsstr
  | GitWorktreeRemove jsstr
  | GitBranchDelete jsstr
  | ZellijDeleteSession jsstr
  | GitWorktreeAdd jsstr jsstr
  | CopyLocal jsstr
  | BunInstall jsstr
  | ZellijListSessions

text \<open>
  What the program did to the world, in order: \<open>Ran c code output\<close> is a shell command
  with its exit status and standard output, \<open>Spawned argv dir r\<close> a child process
  started by \<^verbatim>\<open>spawn(argv, {cwd: dir})\<close> and awaited, with the exception or the exit
  status it gave, and \<open>Wrote path content\<close> a \<^verbatim>\<open>writeFileSync(path, content)\<close>.
\<close>

datatype event =
    Ran cmd nat jsstr
  | Spawned "jsstr list" jsstr "exn + nat"
  | Wrote jsstr jsstr

text \<open>
  The configuration unit \<^verbatim>\<open>config.ts\<close> (lines 24-28). \<open>layout\<close> is the layout path, the
  empty string standing for a missing one as well (both are falsy). \<open>environment\<close> is
  the optional function of the unit; it receives \<^verbatim>\<open>findAvailablePort\<close>, here the outcome
  that a call of it has, and throws or returns the entries of its object.
\<close>

record config =
  layout :: jsstr
  environment :: "((exn + nat) \<Rightarrow> exn + (jsstr \<times> jsstr) list) option"

text \<open>
  What reading, transpiling and running the configuration file gives: no file, an
  exception, or the default export (which may be undefined).
\<close>

datatype config_eval = NoFile | Fails exn | Exports "config option"

text \<open>
  The world outside the program. It is deterministic: what a command answers depends on
  the command and on what the program did before it (\<open>event list\<close>).
  \<^item> \<open>cwd\<close>: \<^verbatim>\<open>process.cwd()\<close>
  \<^item> \<open>sh\<close>: exit status and standard output of a shell command
  \<^item> \<open>existsSync\<close>: whether a path exists
  \<^item> \<open>spawn\<close>: the exception that starting a child process throws, or its exit status
  \<^item> \<open>isPortAvailable\<close>: the occupancy of the ports
  \<^item> \<open>humanId\<close>: the label that \<^verbatim>\<open>humanId({separator: "-", capitalize: false})\<close> generates
  \<^item> \<open>config_source\<close>: the evaluation of the configuration file at a path
  \<^item> \<open>toString_exn\<close>: the text of an exception in a template literal
\<close>

record env =
  cwd :: jsstr
  sh :: "event list \<Rightarrow> cmd \<Rightarrow> nat \<times> jsstr"
  existsSync :: "event list \<Rightarrow> jsstr \<Rightarrow> bool"
  spawn :: "event list \<Rightarrow> jsstr list \<Rightarrow> jsstr \<Rightarrow> exn + nat"
  isPortAvailable :: "nat \<Rightarrow> bool"
  humanId :: jsstr
  config_source :: "jsstr \<Rightarrow> config_eval"
  toString_exn :: "exn \<Rightarrow> jsstr"

text \<open>
  The state of one run: what was done so far, the chunks still to arrive on standard
  input, and what was written to standard output and standard error.
\<close>

record state =
  trace :: "event list"
  stdin :: "jsstr list"
  stdout :: "jsstr list"
  stderr :: "jsstr list"

text \<open>
  How a piece of the program ends: it returns a value, it throws, it ends the process by
  \<^verbatim>\<open>process.exit(code)\<close>, or it waits for a chunk of input that never arrives (nothing
  after the \<^verbatim>\<open>await\<close> runs).
\<close>

datatype 'a result = Return 'a | Throw exn | Exit nat | Blocked

definition andThen :: "'a result \<times> state \<Rightarrow> ('a \<Rightarrow> state \<Rightarrow> 'b result \<times> state) \<Rightarrow> 'b result \<times> state" where
  "andThen m f =
     (case m of
        (Return x, s) \<Rightarrow> f x s
      | (Throw e, s) \<Rightarrow> (Throw e, s)
      | (Exit n, s) \<Rightarrow> (Exit n, s)
      | (Blocked, s) \<Rightarrow> (Blocked, s))"

definition tryCatch :: "'a result \<times> state \<Rightarrow> (exn \<Rightarrow> state \<Rightarrow> 'a result \<times> state) \<Rightarrow> 'a result \<times> state" where
  "tryCatch m handler = (case m of (Throw e, s) \<Rightarrow> handler e s | (r, s) \<Rightarrow> (r, s))"

definition console_log :: "jsstr \<Rightarrow> state \<Rightarrow> state" where
  "console_log message s = s\<lparr>stdout := stdout s @ [message @ [10]]\<rparr>"

text \<open>
  \<^verbatim>\<open>showError\<close> (lines 16-19): \<^verbatim>\<open>console.error(`Error: ${message}`); process.exit(1);\<close>
\<close>

definition showError :: "jsstr \<Rightarrow> state \<Rightarrow> 'a result \<times> state" where
  "showError message s = (Exit 1, s\<lparr>stderr := stderr s @ [js ''Error: '' @ message @ [10]]\<rparr>)"

text \<open>
  A shell command. \<open>run\<close> is the awaited command with \<^verbatim>\<open>.nothrow()\<close>; \<open>dollar\<close> is the
  plain awaited template, which throws a \<open>ShellError\<close> when the exit status is not zero.
  \<^verbatim>\<open>.quiet()\<close> only keeps the command's output off the terminal.
\<close>

definition run :: "env \<Rightarrow> cmd \<Rightarrow> state \<Rightarrow> (nat \<times> jsstr) \<times> state" where
  "run E c s =
     (let (code, output) = sh E (trace s) c
      in ((code, output), s\<lparr>trace := trace s @ [Ran c code output]\<rparr>))"

definition dollar :: "env \<Rightarrow> cmd \<Rightarrow> state \<Rightarrow> jsstr result \<times> state" where
  "dollar E c s =
     (case run E c s of
        ((code, output), s') \<Rightarrow> (if code = 0 then Return output else Throw (ShellError code), s'))"

text \<open>
  \<^verbatim>\<open>spawn(argv, {stdio: inherit, cwd: dir})\<close> followed by \<^verbatim>\<open>await proc.exited\<close>.
\<close>

definition spawn_exited :: "env \<Rightarrow> jsstr list \<Rightarrow> jsstr \<Rightarrow> state \<Rightarrow> nat result \<times> state" where
  "spawn_exited E argv dir s =
     (let r = spawn E (trace s) argv dir;
          s' = s\<lparr>trace := trace s @ [Spawned argv dir r]\<rparr>
      in case r of Inl e \<Rightarrow> (Throw e, s') | Inr exitCode \<Rightarrow> (Return exitCode, s'))"

definition writeFileSync :: "jsstr \<Rightarrow> jsstr \<Rightarrow> state \<Rightarrow> state" where
  "writeFileSync path content s = s\<lparr>trace := trace s @ [Wrote path content]\<rparr>"

section \<open>Prompting the operator\<close>

text \<open>
  \<^verbatim>\<open>promptUser\<close> (lines 104-116) writes the question and resolves at the first chunk of
  standard input:
  \<^verbatim>\<open>
  const input = data.toString().trim().toLowerCase();
  resolve(input === "y" || input === "yes");
  \<close>
\<close>

definition affirmative :: "jsstr \<Rightarrow> bool" where
  "affirmative data =
     (let input = toLowerCase (trim data) in input = js ''y'' \<or> input = js ''yes'')"

definition promptUser :: "jsstr \<Rightarrow> state \<Rightarrow> bool result \<times> state" where
  "promptUser question s =
     (let s' = s\<lparr>stdout := stdout s @ [question @ js '' (y/N): '']\<rparr>
      in case stdin s' of
           [] \<Rightarrow> (Blocked, s')
         | data # rest \<Rightarrow> (Return (affirmative data), s'\<lparr>stdin := rest\<rparr>))"

section \<open>Configuration\<close>

text \<open>
  \<^verbatim>\<open>loadConfig\<close> (lines 24-68): a missing file, an exception while the unit is read and
  run, and an export without a layout each end in \<^verbatim>\<open>showError\<close>.
\<close>

definition loadConfig :: "env \<Rightarrow> jsstr \<Rightarrow> state \<Rightarrow> config result \<times> state" where
  "loadConfig E configDir s =
     (let configPath = configDir @ js ''/config.ts'' in
      case config_source E configPath of
        NoFile \<Rightarrow>
          showError (js ''Config file not found at '' @ configPath @ js ''. Run '' @ [39] @
                     js ''wt init'' @ [39] @ js '' first.'') s
      | Fails error \<Rightarrow>
          showError (js ''Failed to load config from '' @ configPath @ js '': '' @ toString_exn E error) s
      | Exports None \<Rightarrow>
          showError (js ''Invalid config: missing '' @ [39] @ js ''layout'' @ [39] @
                     js '' property in '' @ configPath) s
      | Exports (Some config) \<Rightarrow>
          if layout config = []
          then showError (js ''Invalid config: missing '' @ [39] @ js ''layout'' @ [39] @
                          js '' property in '' @ configPath) s
          else (Return config, s))"

section \<open>Worktree registry and history\<close>

text \<open>
  \<^verbatim>\<open>hasUnmergedCommits\<close> (lines 121-128): the log of \<^verbatim>\<open>main..branch\<close> is not empty; a
  failing query counts as no unmerged commits.
\<close>

definition hasUnmergedCommits :: "env \<Rightarrow> jsstr \<Rightarrow> state \<Rightarrow> bool result \<times> state" where
  "hasUnmergedCommits E branch s =
     tryCatch
       (andThen (dollar E (GitLog branch) s) (\<lambda>output s.
          (Return (length (trim output) > 0), s)))
       (\<lambda>error s. (Return False, s))"

text \<open>
  The loop of \<^verbatim>\<open>getAllWorktrees\<close> (lines 140-149) over the lines of the porcelain
  listing, and the function itself (lines 133-155).
\<close>

fun worktree_labels :: "jsstr \<Rightarrow> jsstr list \<Rightarrow> jsstr list" where
  "worktree_labels worktreesDir [] = []"
| "worktree_labels worktreesDir (l # ls) =
     (let line = trim l in
      if line \<noteq> [] \<and> startsWith line (js ''worktree '' @ worktreesDir) then
        (let worktreePath = substring line (length (js ''worktree ''));
             label = substring worktreePath (length worktreesDir)
         in if label \<noteq> [] then label # worktree_labels worktreesDir ls
            else worktree_labels worktreesDir ls)
      else worktree_labels worktreesDir ls)"

definition getAllWorktrees :: "env \<Rightarrow> jsstr \<Rightarrow> state \<Rightarrow> jsstr list result \<times> state" where
  "getAllWorktrees E configDir s =
     tryCatch
       (andThen (dollar E GitWorktreeList s) (\<lambda>output s.
          (let lines = split 10 output;
               worktreesDir = cwd E @ js ''/'' @ configDir @ js ''/worktrees/''
           in (Return (worktree_labels worktreesDir lines), s))))
       (\<lambda>error s. (Return [], s))"

section \<open>Cleanup\<close>

text \<open>
  The cherry-pick loop of \<^verbatim>\<open>cleanupWorktree\<close> (lines 222-226):
  \<^verbatim>\<open>
  for (const commit of commits) {
    if (commit.trim()) { await $`git cherry-pick ${commit}`; }
  }
  \<close>
\<close>

fun cherry_pick_each :: "env \<Rightarrow> jsstr list \<Rightarrow> state \<Rightarrow> unit result \<times> state" where
  "cherry_pick_each E [] s = (Return (), s)"
| "cherry_pick_each E (commit # commits) s =
     (if trim commit \<noteq> []
      then andThen (dollar E (GitCherryPick commit) s) (\<lambda>_ s. cherry_pick_each E commits s)
      else cherry_pick_each E commits s)"

text \<open>
  The reconciliation block of \<^verbatim>\<open>cleanupWorktree\<close> (lines 211-227), run when the operator
  consents: check out main, list the commits of \<^verbatim>\<open>main..label\<close>, reverse the list and
  cherry-pick each entry.
\<close>

definition reconcile :: "env \<Rightarrow> jsstr \<Rightarrow> state \<Rightarrow> unit result \<times> state" where
  "reconcile E label s =
     andThen (dollar E GitCheckoutMain
                (console_log (js ''Switching to main and cherry-picking commits...'') s)) (\<lambda>_ s.
     andThen (dollar E (GitRevList label) s) (\<lambda>output s.
       (let commits = rev (split 10 (trim output)) in
        andThen (cherry_pick_each E commits s) (\<lambda>_ s.
          (Return (), console_log ([10003] @ js '' Cherry-picked commits from '' @ label @
                                   js '' into main'') s)))))"

text \<open>
  Lines 204-229 of \<^verbatim>\<open>cleanupWorktree\<close>: when the branch has unmerged commits the
  operator is asked, and on consent the commits are reconciled.
\<close>

definition offer_cherry_pick :: "env \<Rightarrow> jsstr \<Rightarrow> bool \<Rightarrow> state \<Rightarrow> unit result \<times> state" where
  "offer_cherry_pick E label hasUnmerged s =
     (if hasUnmerged then
        andThen (promptUser (js ''Do you want to cherry-pick them into main first?'')
                   (console_log (js ''Branch '' @ [39] @ label @ [39] @
                                 js '' has commits not merged into main.'') s))
          (\<lambda>shouldCherryPick s.
             if shouldCherryPick then reconcile E label s else (Return (), s))
      else (Return (), s))"

text \<open>
  Lines 231-244 of \<^verbatim>\<open>cleanupWorktree\<close>: remove the worktree, delete the branch, delete
  the zellij session; each command is a plain awaited template.
\<close>

definition remove_steps :: "env \<Rightarrow> jsstr \<Rightarrow> jsstr \<Rightarrow> state \<Rightarrow> unit result \<times> state" where
  "remove_steps E label worktreePath s =
     andThen (dollar E (GitWorktreeRemove worktreePath)
                (console_log (js ''Removing worktree...'') s)) (\<lambda>_ s.
     andThen (dollar E (GitBranchDelete label)
                (console_log (js ''Deleting branch...'')
                   (console_log ([10003] @ js '' Removed worktree '' @ worktreePath) s))) (\<lambda>_ s.
     andThen (dollar E (ZellijDeleteSession (js ''wt-'' @ label))
                (console_log ([10003] @ js '' Deleted branch '' @ label) s)) (\<lambda>_ s.
       (Return (), console_log ([10003] @ js '' Cleanup completed successfully'') s))))"

text \<open>
  The body of the \<^verbatim>\<open>try\<close> block of \<^verbatim>\<open>cleanupWorktree\<close> (lines 201-244).
\<close>

definition cleanup_steps :: "env \<Rightarrow> jsstr \<Rightarrow> jsstr \<Rightarrow> state \<Rightarrow> unit result \<times> state" where
  "cleanup_steps E label worktreePath s =
     andThen (hasUnmergedCommits E label s) (\<lambda>hasUnmerged s.
     andThen (offer_cherry_pick E label hasUnmerged s) (\<lambda>_ s.
       remove_steps E label worktreePath s))"

text \<open>
  \<^verbatim>\<open>cleanupWorktree\<close> (lines 189-248).
\<close>

definition cleanupWorktree :: "env \<Rightarrow> jsstr \<Rightarrow> jsstr \<Rightarrow> state \<Rightarrow> unit result \<times> state" where
  "cleanupWorktree E label configDir s =
     (let worktreePath = cwd E @ js ''/'' @ configDir @ js ''/worktrees/'' @ label in
      if \<not> existsSync E (trace s) worktreePath
      then (Return (), console_log (js ''Worktree '' @ worktreePath @ js '' does not exist.'') s)
      else
        tryCatch
          (cleanup_steps E label worktreePath
             (console_log (js ''Cleaning up worktree: '' @ worktreePath) s))
          (\<lambda>error s. showError (js ''Failed to cleanup worktree: '' @ toString_exn E error) s))"

text \<open>
  The loop of \<^verbatim>\<open>cleanupAllWorktrees\<close> (lines 178-181) and the function (lines 160-184).
\<close>

fun cleanup_each :: "env \<Rightarrow> jsstr \<Rightarrow> jsstr list \<Rightarrow> state \<Rightarrow> unit result \<times> state" where
  "cleanup_each E configDir [] s = (Return (), s)"
| "cleanup_each E configDir (label # labels) s =
     andThen (cleanupWorktree E label configDir
                (console_log ([10] @ js ''--- Cleaning up worktree: '' @ label @ js '' ---'') s))
       (\<lambda>_ s. cleanup_each E configDir labels s)"

definition cleanupAllWorktrees :: "env \<Rightarrow> jsstr \<Rightarrow> state \<Rightarrow> unit result \<times> state" where
  "cleanupAllWorktrees E configDir s =
     andThen (getAllWorktrees E configDir s) (\<lambda>worktrees s.
       if length worktrees = 0
       then (Return (), console_log (js ''No worktrees found to clean up.'') s)
       else
         andThen (promptUser (js ''Do you want to clean up all worktrees?'')
                    (console_log (js ''Found '' @ toString_nat (length worktrees) @
                                  js '' worktree(s): '' @ join worktrees (js '', '')) s))
           (\<lambda>shouldProceed s.
              if \<not> shouldProceed then (Return (), console_log (js ''Cleanup cancelled.'') s)
              else
                andThen (cleanup_each E configDir worktrees s) (\<lambda>_ s.
                  (Return (), console_log ([10, 10003] @ js '' All worktrees cleaned up successfully'') s))))"

section \<open>Creating and opening a worktree\<close>

text \<open>
  The message of the three label checks (lines 317-321, 422-426 and 443-447).
\<close>

definition labelMessage :: jsstr where
  "labelMessage = js ''Label must contain only letters, numbers, underscores, and hyphens''"

text \<open>
  The \<^verbatim>\<open>try\<close> block that creates the worktree (lines 334-341).
\<close>

definition create_steps :: "env \<Rightarrow> jsstr \<Rightarrow> jsstr \<Rightarrow> state \<Rightarrow> unit result \<times> state" where
  "create_steps E label worktreePath s =
     tryCatch
       (andThen (dollar E (GitWorktreeAdd worktreePath label) s) (\<lambda>_ s.
        andThen (dollar E (CopyLocal worktreePath) s) (\<lambda>_ s.
        andThen (dollar E (BunInstall worktreePath) s) (\<lambda>_ s.
          (Return (), console_log ([10003] @ js '' Worktree created at '' @ worktreePath) s)))))
       (\<lambda>error s. showError (js ''Failed to create worktree: '' @ toString_exn E error) s)"

text \<open>
  The content of the environment file (lines 350-354): one \<^verbatim>\<open>KEY=VALUE\<close> line for each
  entry.
\<close>

fun envContent :: "(jsstr \<times> jsstr) list \<Rightarrow> jsstr" where
  "envContent [] = []"
| "envContent ((key, val) # entries) = key @ js ''='' @ val @ [10] @ envContent entries"

text \<open>
  Lines 349-357: the environment file is written when the configuration has an
  \<^verbatim>\<open>environment\<close> function. The function is awaited outside of any \<^verbatim>\<open>try\<close>, so what it
  throws leaves \<^verbatim>\<open>createWorktree\<close>.
\<close>

definition provision_env :: "env \<Rightarrow> config \<Rightarrow> jsstr \<Rightarrow> state \<Rightarrow> unit result \<times> state" where
  "provision_env E config envPath s =
     (case environment config of
        None \<Rightarrow> (Return (), s)
      | Some f \<Rightarrow>
          (case f (fst (findAvailablePort (isPortAvailable E))) of
             Inl e \<Rightarrow> (Throw e, s)
           | Inr envVars \<Rightarrow>
               (Return (), console_log ([10003] @ js '' Created .env.local'')
                             (writeFileSync envPath (envContent envVars) s))))"

text \<open>
  The \<^verbatim>\<open>try\<close> block that runs the session and offers the cleanup (lines 364-392).
\<close>

definition session_steps :: "env \<Rightarrow> jsstr \<Rightarrow> jsstr \<Rightarrow> jsstr \<Rightarrow> jsstr \<Rightarrow> state \<Rightarrow> unit result \<times> state" where
  "session_steps E label configDir worktreePath layoutPath s =
     tryCatch
       (andThen (spawn_exited E [js ''zellij'', js ''-n'', layoutPath, js ''-s'', js ''wt-'' @ label]
                   worktreePath s) (\<lambda>exitCode s.
        andThen (promptUser (js ''Do you want to clean up the worktree '' @ [39] @ label @ [39] @ js ''?'')
                   (console_log []
                      (if exitCode = 0
                       then console_log ([10003] @ js '' Worktree session completed'') s
                       else console_log (js ''Worktree exited with code '' @ toString_nat exitCode) s)))
          (\<lambda>shouldCleanup s.
             if shouldCleanup
             then cleanupWorktree E label configDir
                    (console_log ([10] @ js ''--- Starting automatic cleanup ---'') s)
             else (Return (), console_log (js ''Worktree '' @ [39] @ label @ [39] @
                                           js '' preserved at '' @ worktreePath) s))))
       (\<lambda>error s. showError (js ''Failed to create zellij session: '' @ toString_exn E error) s)"

text \<open>
  Lines 323-392 of \<^verbatim>\<open>createWorktree\<close>, what it does once the label has passed the check:
  create the worktree unless its directory exists, load the configuration, write the
  environment file, run the session.
\<close>

definition create_validated :: "env \<Rightarrow> jsstr \<Rightarrow> jsstr \<Rightarrow> state \<Rightarrow> unit result \<times> state" where
  "create_validated E label configDir s =
     (let worktreePath = cwd E @ js ''/'' @ configDir @ js ''/worktrees/'' @ label;
          envPath = worktreePath @ js ''/.env.local''
      in
      andThen
        (if existsSync E (trace s) worktreePath
         then (Return (), console_log (js ''Opening Claude Code in existing worktree...'')
                            (console_log (js ''Worktree already exists at '' @ worktreePath) s))
         else create_steps E label worktreePath
                (console_log (js ''Creating worktree: '' @ worktreePath) s)) (\<lambda>_ s.
      andThen (loadConfig E configDir s) (\<lambda>config s.
      andThen (provision_env E config envPath s) (\<lambda>_ s.
        session_steps E label configDir worktreePath (configDir @ js ''/'' @ layout config)
          (console_log (js ''Creating zellij session...'') s)))))"

text \<open>
  \<^verbatim>\<open>createWorktree\<close> (lines 306-393). The label is optional; \<^verbatim>\<open>!label\<close> holds for a
  missing label and for the empty string, and then a label is generated.
\<close>

definition createWorktree :: "env \<Rightarrow> jsstr option \<Rightarrow> jsstr \<Rightarrow> state \<Rightarrow> unit result \<times> state" where
  "createWorktree E label0 configDir s0 =
     (let (label, s) =
            (case label0 of
               None \<Rightarrow> (humanId E, console_log (js ''Auto-generated label: '' @ humanId E) s0)
             | Some l \<Rightarrow>
                 if l = [] then (humanId E, console_log (js ''Auto-generated label: '' @ humanId E) s0)
                 else (l, s0))
      in
      andThen (if \<not> labelRegexTest label then showError labelMessage s else (Return (), s)) (\<lambda>_ s.
        create_validated E label configDir s))"

text \<open>
  \<^verbatim>\<open>openWorktree\<close> (lines 253-301).
\<close>

definition openWorktree :: "env \<Rightarrow> jsstr \<Rightarrow> jsstr \<Rightarrow> state \<Rightarrow> unit result \<times> state" where
  "openWorktree E label configDir s =
     (let worktreePath = cwd E @ js ''/'' @ configDir @ js ''/worktrees/'' @ label in
      andThen (if \<not> existsSync E (trace s) worktreePath
               then showError (js ''Worktree '' @ worktreePath @ js '' does not exist.'') s
               else (Return (), s)) (\<lambda>_ s.
      andThen (loadConfig E configDir s) (\<lambda>config s.
        (let layoutPath = configDir @ js ''/'' @ layout config;
             sessionName = js ''wt-'' @ label
         in
         tryCatch
           (case run E ZellijListSessions s of
              ((exitCode, output), s) \<Rightarrow>
                (let sessions = (if exitCode = 0 then split 10 (trim output) else []);
                     sessionExists = list_ex (\<lambda>x. includes_str x sessionName) sessions
                 in
                 andThen
                   (if sessionExists
                    then spawn_exited E [js ''zellij'', js ''attach'', sessionName] worktreePath
                           (console_log (js ''Attaching to existing zellij session: '' @ sessionName) s)
                    else spawn_exited E [js ''zellij'', js ''-n'', layoutPath, js ''-s'', sessionName]
                           worktreePath
                           (console_log (js ''Creating new zellij session: '' @ sessionName) s))
                   (\<lambda>_ s. (Return (), console_log ([10003] @ js '' Closed worktree session'') s))))
           (\<lambda>error s. showError (js ''Failed to open worktree session: '' @ toString_exn E error) s)))))"

section \<open>The commands\<close>

text \<open>
  The actions of \<^verbatim>\<open>new [label]\<close> (lines 411-414), \<^verbatim>\<open>open <label>\<close> (lines 421-429) and
  \<^verbatim>\<open>cleanup [label]\<close> (lines 436-450).
\<close>

definition command_new :: "env \<Rightarrow> jsstr option \<Rightarrow> jsstr \<Rightarrow> state \<Rightarrow> unit result \<times> state" where
  "command_new E label configDir s = createWorktree E label configDir s"

definition command_open :: "env \<Rightarrow> jsstr \<Rightarrow> jsstr \<Rightarrow> state \<Rightarrow> unit result \<times> state" where
  "command_open E label configDir s =
     andThen (if \<not> labelRegexTest label then showError labelMessage s else (Return (), s)) (\<lambda>_ s.
       openWorktree E label configDir s)"

definition command_cleanup :: "env \<Rightarrow> jsstr option \<Rightarrow> jsstr \<Rightarrow> state \<Rightarrow> unit result \<times> state" where
  "command_cleanup E label0 configDir s =
     (case label0 of
        None \<Rightarrow> cleanupAllWorktrees E configDir s
      | Some label \<Rightarrow>
          if label = [] then cleanupAllWorktrees E configDir s
          else
            andThen (if \<not> labelRegexTest label then showError labelMessage s else (Return (), s)) (\<lambda>_ s.
              cleanupWorktree E label configDir s))"

section \<open>Reading a trace\<close>

text \<open>
  What a run added to the trace; the cherry-picks of a trace with their exit status; and
  the destructive commands of the cleanup: removing the worktree, deleting the branch,
  deleting the session.
\<close>

definition events_since :: "state \<Rightarrow> state \<Rightarrow> event list" where
  "events_since s s' = drop (length (trace s)) (trace s')"

fun picked :: "event list \<Rightarrow> (jsstr \<times> nat) list" where
  "picked [] = []"
| "picked (Ran (GitCherryPick c) code output # evs) = (c, code) # picked evs"
| "picked (e # evs) = picked evs"



fun destructive :: "event \<Rightarrow> bool" where
  "destructive (Ran (GitWorktreeRemove p) code output) = True"
| "destructive (Ran (GitBranchDelete l) code output) = True"
| "destructive (Ran (ZellijDeleteSession n) code output) = True"
| "destructive e = False"

text \<open>
  The entries that the cherry-pick loop does not skip, and the events of cherry-picks
  that succeed, \<open>outs\<close> being what the commands print.
\<close>

definition nonblank :: "jsstr list \<Rightarrow> jsstr list" where
  "nonblank commits = filter (\<lambda>commit. trim commit \<noteq> []) commits"

text \<open>
  The commits that the reconciliation cherry-picks, in its order, for a listing printed by
  \<^verbatim>\<open>git rev-list\<close>.
\<close>

definition commits_to_pick :: "jsstr \<Rightarrow> jsstr list" where
  "commits_to_pick listing = nonblank (rev (split 10 (trim listing)))"

definition pick_events :: "jsstr list \<Rightarrow> jsstr list \<Rightarrow> event list" where
  "pick_events commits outs = map (\<lambda>(commit, out). Ran (GitCherryPick commit) 0 out) (zip commits outs)"

text \<open>
  What \<^verbatim>\<open>git rev-list\<close> prints for a list of commit names: one name on each line. A
  commit name is not empty and holds no white space.
\<close>

definition rev_list_output :: "jsstr list \<Rightarrow> jsstr" where
  "rev_list_output names = concat (map (\<lambda>name. name @ [10]) names)"

definition commit_name :: "jsstr \<Rightarrow> bool" where
  "commit_name c \<longleftrightarrow> c \<noteq> [] \<and> \<not> list_ex isWhiteSpace c"


section \<open>Test worlds\<close>

text \<open>
  A small world for concrete runs: the repository is \<^verbatim>\<open>/repo\<close>, every path exists, every
  child process exits with status 0 and every port is free; \<open>answers\<close> gives the exit
  status and output of each shell command, \<open>cfg\<close> the evaluation of the configuration.
\<close>

definition world :: "(cmd \<Rightarrow> nat \<times> jsstr) \<Rightarrow> config_eval \<Rightarrow> env" where
  "world answers cfg =
     \<lparr>cwd = js ''/repo'',
      sh = (\<lambda>history c. answers c),
      existsSync = (\<lambda>history path. True),
      spawn = (\<lambda>history argv dir. Inr 0),
      isPortAvailable = (\<lambda>port. True),
      humanId = js ''calm-fox'',
      config_source = (\<lambda>path. cfg),
      toString_exn = (\<lambda>e. case e of ShellError n \<Rightarrow> js ''ShellError '' @ toString_nat n
                                | Error m \<Rightarrow> js ''Error: '' @ m)\<rparr>"

definition start :: "jsstr list \<Rightarrow> state" where
  "start input = \<lparr>trace = [], stdin = input, stdout = [], stderr = []\<rparr>"

text \<open>
  The branch has the commits c1, c2, c3 (oldest first) and the cherry-pick of c2 fails.
\<close>

definition conflict_answers :: "cmd \<Rightarrow> nat \<times> jsstr" where
  "conflict_answers c =
     (case c of
        GitLog b \<Rightarrow> (0, js ''c3 third'')
      | GitRevList l \<Rightarrow> (0, js ''c3'' @ [10] @ js ''c2'' @ [10] @ js ''c1'' @ [10])
      | GitCherryPick commit \<Rightarrow> (if commit = js ''c2'' then (1, []) else (0, []))
      | _ \<Rightarrow> (0, []))"

text \<open>
  The same branch, every cherry-pick succeeding.
\<close>

definition clean_answers :: "cmd \<Rightarrow> nat \<times> jsstr" where
  "clean_answers c =
     (case c of
        GitLog b \<Rightarrow> (0, js ''c3 third'')
      | GitRevList l \<Rightarrow> (0, js ''c3'' @ [10] @ js ''c2'' @ [10] @ js ''c1'' @ [10])
      | _ \<Rightarrow> (0, []))"

text \<open>
  Nothing to merge, and \<^verbatim>\<open>zellij delete-session\<close> exits with status 1 (there is no such
  session).
\<close>

definition no_session_answers :: "cmd \<Rightarrow> nat \<times> jsstr" where
  "no_session_answers c = (case c of ZellijDeleteSession n \<Rightarrow> (1, []) | _ \<Rightarrow> (0, []))"

text \<open>
  Two registered worktrees, \<^verbatim>\<open>a\<close> and \<^verbatim>\<open>b\<close>; removing the worktree of \<^verbatim>\<open>a\<close> fails.
\<close>

definition batch_answers :: "cmd \<Rightarrow> nat \<times> jsstr" where
  "batch_answers c =
     (case c of
        GitWorktreeList \<Rightarrow>
          (0, js ''worktree /repo/.wt/worktrees/a'' @ [10] @ js ''worktree /repo/.wt/worktrees/b'' @ [10])
      | GitWorktreeRemove p \<Rightarrow> (if p = js ''/repo/.wt/worktrees/a'' then (1, []) else (0, []))
      | _ \<Rightarrow> (0, []))"

text \<open>
  Every command succeeds and prints nothing.
\<close>

definition quiet_answers :: "cmd \<Rightarrow> nat \<times> jsstr" where
  "quiet_answers c = (0, [])"


text \<open>
  A configuration with a layout and no \<^verbatim>\<open>environment\<close> function, and one whose function
  asks for a port and returns it as \<^verbatim>\<open>PORT\<close>.
\<close>

definition plain_config :: config where
  "plain_config = \<lparr>layout = js ''./layout.kdl'', environment = None\<rparr>"


section \<open>Proof setup\<close>

declare upt_rec_numeral [simp del]
declare findAvailablePort_from.simps [simp del]
declare findAvailablePorts_from.simps [simp del]
declare toString_nat.simps [simp del]


section \<open>The port scans\<close>

lemma findAvailablePort_from_hit:
  "lo \<le> p \<Longrightarrow> p < 4000 \<Longrightarrow> avail p \<Longrightarrow> (\<forall>q. lo \<le> q \<and> q < p \<longrightarrow> \<not> avail q) \<Longrightarrow>
   findAvailablePort_from avail lo probed = (Inr p, probed @ [lo..<Suc p])"
proof (induction "p - lo" arbitrary: lo probed)
  case 0
  then have "lo = p" by simp
  with 0 show ?case
    by (subst findAvailablePort_from.simps) simp
next
  case (Suc n)
  then have lt: "lo < p" and na: "\<not> avail lo" by auto
  have step: "findAvailablePort_from avail lo probed = findAvailablePort_from avail (lo + 1) (probed @ [lo])"
    using lt Suc.prems(2) na by (subst findAvailablePort_from.simps) simp
  have "findAvailablePort_from avail (lo + 1) (probed @ [lo]) = (Inr p, (probed @ [lo]) @ [lo + 1..<Suc p])"
    using Suc lt by (intro Suc.hyps(1)) auto
  with step lt show ?case
    by (simp add: upt_conv_Cons)
qed

lemma findAvailablePort_from_miss:
  "(\<forall>q. lo \<le> q \<and> q < 4000 \<longrightarrow> \<not> avail q) \<Longrightarrow>
   findAvailablePort_from avail lo probed =
     (Inl (Error (js ''No port available in range 3002-4000'')), probed @ [lo..<4000])"
proof (induction "4000 - lo" arbitrary: lo probed)
  case 0
  then show ?case
    by (subst findAvailablePort_from.simps) simp
next
  case (Suc n)
  then have lt: "lo < 4000" and na: "\<not> avail lo" by auto
  have step: "findAvailablePort_from avail lo probed = findAvailablePort_from avail (lo + 1) (probed @ [lo])"
    using lt na by (subst findAvailablePort_from.simps) simp
  have "findAvailablePort_from avail (lo + 1) (probed @ [lo]) =
     (Inl (Error (js ''No port available in range 3002-4000'')), (probed @ [lo]) @ [lo + 1..<4000])"
    using Suc lt by (intro Suc.hyps(1)) auto
  with step lt show ?case
    by (simp add: upt_conv_Cons)
qed

lemma findAvailablePorts_from_hit:
  "lo \<le> p \<Longrightarrow> p < 4000 \<Longrightarrow> avail p \<Longrightarrow> avail (p + 1) \<Longrightarrow>
   (\<forall>q. lo \<le> q \<and> q < p \<longrightarrow> \<not> (avail q \<and> avail (q + 1))) \<Longrightarrow>
   findAvailablePorts_from avail lo probed =
     (Inr \<lparr>adminPort = p + 1, webhookPort = p\<rparr>, probed @ pair_probes [lo..<Suc p])"
proof (induction "p - lo" arbitrary: lo probed)
  case 0
  then have "lo = p" by simp
  with 0 show ?case
    by (subst findAvailablePorts_from.simps) simp
next
  case (Suc n)
  then have lt: "lo < p" and na: "\<not> (avail lo \<and> avail (lo + 1))" by auto
  have step: "findAvailablePorts_from avail lo probed =
      findAvailablePorts_from avail (lo + 1) (probed @ [lo, lo + 1])"
    using lt Suc.prems(2) na by (subst findAvailablePorts_from.simps) auto
  have "findAvailablePorts_from avail (lo + 1) (probed @ [lo, lo + 1]) =
      (Inr \<lparr>adminPort = p + 1, webhookPort = p\<rparr>, (probed @ [lo, lo + 1]) @ pair_probes [lo + 1..<Suc p])"
    using Suc lt by (intro Suc.hyps(1)) auto
  with step lt show ?case
    by (simp add: upt_conv_Cons)
qed

lemma findAvailablePorts_from_miss:
  "(\<forall>q. lo \<le> q \<and> q < 4000 \<longrightarrow> \<not> (avail q \<and> avail (q + 1))) \<Longrightarrow>
   findAvailablePorts_from avail lo probed =
     (Inl (Error (js ''No adjacent ports available in range 3002-4000'')), probed @ pair_probes [lo..<4000])"
proof (induction "4000 - lo" arbitrary: lo probed)
  case 0
  then show ?case
    by (subst findAvailablePorts_from.simps) simp
next
  case (Suc n)
  then have lt: "lo < 4000" and na: "\<not> (avail lo \<and> avail (lo + 1))" by auto
  have step: "findAvailablePorts_from avail lo probed =
      findAvailablePorts_from avail (lo + 1) (probed @ [lo, lo + 1])"
    using lt na by (subst findAvailablePorts_from.simps) auto
  have "findAvailablePorts_from avail (lo + 1) (probed @ [lo, lo + 1]) =
     (Inl (Error (js ''No adjacent ports available in range 3002-4000'')), (probed @ [lo, lo + 1]) @ pair_probes [lo + 1..<4000])"
    using Suc lt by (intro Suc.hyps(1)) auto
  with step lt show ?case
    by (simp add: upt_conv_Cons)
qed


lemma set_pair_probes: "set (pair_probes ps) = set ps \<union> Suc ` set ps"
  by (induction ps) auto

lemma findAvailablePort_cases:
  "(\<exists>p. 3002 \<le> p \<and> p < 4000 \<and> avail p \<and> (\<forall>q. 3002 \<le> q \<and> q < p \<longrightarrow> \<not> avail q) \<and>
        findAvailablePort avail = (Inr p, [3002..<Suc p])) \<or>
   ((\<forall>q. 3002 \<le> q \<and> q < 4000 \<longrightarrow> \<not> avail q) \<and>
        findAvailablePort avail = (Inl (Error (js ''No port available in range 3002-4000'')), [3002..<4000]))"
proof (cases "\<exists>p. 3002 \<le> p \<and> p < 4000 \<and> avail p")
  case True
  define p where "p = (LEAST p. 3002 \<le> p \<and> p < 4000 \<and> avail p)"
  have p: "3002 \<le> p \<and> p < 4000 \<and> avail p"
    unfolding p_def using True by (rule LeastI_ex)
  have least: "\<forall>q. 3002 \<le> q \<and> q < p \<longrightarrow> \<not> avail q"
  proof (intro allI impI notI)
    fix q assume q: "3002 \<le> q \<and> q < p" and "avail q"
    with p have "3002 \<le> q \<and> q < 4000 \<and> avail q" by simp
    then have "p \<le> q" unfolding p_def by (rule Least_le)
    with q show False by simp
  qed
  have "findAvailablePort avail = (Inr p, [3002..<Suc p])"
    unfolding findAvailablePort_def
    using findAvailablePort_from_hit [of 3002 p avail "[]"] p least by simp
  with p least show ?thesis by blast
next
  case False
  then have none: "\<forall>q. 3002 \<le> q \<and> q < 4000 \<longrightarrow> \<not> avail q" by blast
  then have "findAvailablePort avail = (Inl (Error (js ''No port available in range 3002-4000'')), [3002..<4000])"
    unfolding findAvailablePort_def
    using findAvailablePort_from_miss [of 3002 avail "[]"] by simp
  with none show ?thesis by blast
qed

lemma findAvailablePorts_cases:
  "(\<exists>p. 3002 \<le> p \<and> p < 4000 \<and> avail p \<and> avail (p + 1) \<and>
        (\<forall>q. 3002 \<le> q \<and> q < p \<longrightarrow> \<not> (avail q \<and> avail (q + 1))) \<and>
        findAvailablePorts avail = (Inr \<lparr>adminPort = p + 1, webhookPort = p\<rparr>, pair_probes [3002..<Suc p])) \<or>
   ((\<forall>q. 3002 \<le> q \<and> q < 4000 \<longrightarrow> \<not> (avail q \<and> avail (q + 1))) \<and>
        findAvailablePorts avail =
          (Inl (Error (js ''No adjacent ports available in range 3002-4000'')), pair_probes [3002..<4000]))"
proof (cases "\<exists>p. 3002 \<le> p \<and> p < 4000 \<and> avail p \<and> avail (p + 1)")
  case True
  define p where "p = (LEAST p. 3002 \<le> p \<and> p < 4000 \<and> avail p \<and> avail (p + 1))"
  have p: "3002 \<le> p \<and> p < 4000 \<and> avail p \<and> avail (p + 1)"
    unfolding p_def using True by (rule LeastI_ex)
  have least: "\<forall>q. 3002 \<le> q \<and> q < p \<longrightarrow> \<not> (avail q \<and> avail (q + 1))"
  proof (intro allI impI notI)
    fix q assume q: "3002 \<le> q \<and> q < p" and "avail q \<and> avail (q + 1)"
    with p have "3002 \<le> q \<and> q < 4000 \<and> avail q \<and> avail (q + 1)" by simp
    then have "p \<le> q" unfolding p_def by (rule Least_le)
    with q show False by simp
  qed
  have "findAvailablePorts avail = (Inr \<lparr>adminPort = p + 1, webhookPort = p\<rparr>, pair_probes [3002..<Suc p])"
    unfolding findAvailablePorts_def
    using findAvailablePorts_from_hit [of 3002 p avail "[]"] p least by simp
  with p least show ?thesis by blast
next
  case False
  then have none: "\<forall>q. 3002 \<le> q \<and> q < 4000 \<longrightarrow> \<not> (avail q \<and> avail (q + 1))" by blast
  then have "findAvailablePorts avail =
      (Inl (Error (js ''No adjacent ports available in range 3002-4000'')), pair_probes [3002..<4000])"
    unfolding findAvailablePorts_def
    using findAvailablePorts_from_miss [of 3002 avail "[]"] by simp
  with none show ?thesis by blast
qed

text \<open>
  Claim C7. In single-port mode, for every occupancy of the range from 3002 up to but not
  including 4000, \<open>findAvailablePort\<close> returns the smallest free port of the range, and
  it throws the no-port-available error if and only if every port of the range is in use.
\<close>

theorem findAvailablePort_smallest_free:
  "(fst (findAvailablePort avail) = Inr p \<longleftrightarrow>
      3002 \<le> p \<and> p < 4000 \<and> avail p \<and> (\<forall>q. 3002 \<le> q \<and> q < p \<longrightarrow> \<not> avail q)) \<and>
   ((\<exists>e. fst (findAvailablePort avail) = Inl e) \<longleftrightarrow> (\<forall>q. 3002 \<le> q \<and> q < 4000 \<longrightarrow> \<not> avail q)) \<and>
   (\<forall>e. fst (findAvailablePort avail) = Inl e \<longrightarrow> e = Error (js ''No port available in range 3002-4000''))"
proof -
  consider (hit) p0 where "3002 \<le> p0" "p0 < 4000" "avail p0" "\<forall>q. 3002 \<le> q \<and> q < p0 \<longrightarrow> \<not> avail q"
      "findAvailablePort avail = (Inr p0, [3002..<Suc p0])"
    | (miss) "\<forall>q. 3002 \<le> q \<and> q < 4000 \<longrightarrow> \<not> avail q"
      "findAvailablePort avail = (Inl (Error (js ''No port available in range 3002-4000'')), [3002..<4000])"
    using findAvailablePort_cases [of avail] by blast
  then show ?thesis
  proof cases
    case hit
    have "p = p0" if "3002 \<le> p" "p < 4000" "avail p" "\<forall>q. 3002 \<le> q \<and> q < p \<longrightarrow> \<not> avail q"
      using that hit(1-4) by (meson linorder_neqE_nat)
    with hit show ?thesis by (auto)
  next
    case miss
    then show ?thesis by (auto)
  qed
qed

text \<open>
  With 3002, 3003 and 3004 occupied and 3005 free the scan returns 3005; with every port
  occupied it throws.
\<close>

theorem findAvailablePort_smallest_free_witness:
  "fst (findAvailablePort (\<lambda>p. p \<notin> {3002, 3003, 3004})) = Inr 3005 \<and>
   (\<exists>e. fst (findAvailablePort (\<lambda>p. False)) = Inl e)"
proof -
  have "\<forall>q::nat. 3002 \<le> q \<and> q < 3005 \<longrightarrow> \<not> q \<notin> {3002, 3003, 3004}"
    by auto
  then have "fst (findAvailablePort (\<lambda>p. p \<notin> {3002, 3003, 3004})) = Inr 3005"
    using findAvailablePort_smallest_free [of "\<lambda>p. p \<notin> {3002, 3003, 3004}" 3005] by simp
  moreover have "\<exists>e. fst (findAvailablePort (\<lambda>p. False)) = Inl e"
    using findAvailablePort_smallest_free [of "\<lambda>p. False" 0] by simp
  ultimately show ?thesis ..
qed

text \<open>
  Claim C6. In adjacent-pair mode, for every occupancy, \<open>findAvailablePorts\<close> returns a
  pair exactly when it is built from the first candidate \<open>p\<close> of the ascending scan
  such that \<open>p\<close> and \<open>p + 1\<close> are both free; the higher port \<open>p + 1\<close> is \<open>adminPort\<close>
  and the lower port \<open>p\<close> is \<open>webhookPort\<close>.
\<close>

theorem findAvailablePorts_first_pair:
  "fst (findAvailablePorts avail) = Inr r \<longleftrightarrow>
     (\<exists>p. r = \<lparr>adminPort = p + 1, webhookPort = p\<rparr> \<and> 3002 \<le> p \<and> p < 4000 \<and>
          avail p \<and> avail (p + 1) \<and>
          (\<forall>q. 3002 \<le> q \<and> q < p \<longrightarrow> \<not> (avail q \<and> avail (q + 1))))"
proof -
  define first where "first p \<longleftrightarrow> 3002 \<le> p \<and> p < 4000 \<and> avail p \<and> avail (p + 1) \<and>
      (\<forall>q. 3002 \<le> q \<and> q < p \<longrightarrow> \<not> (avail q \<and> avail (q + 1)))" for p
  have uniq: "p = p'" if "first p" "first p'" for p p'
  proof -
    have "\<not> p < p'" using that unfolding first_def by auto
    moreover have "\<not> p' < p" using that unfolding first_def by auto
    ultimately show ?thesis by linarith
  qed
  have cases: "(\<exists>p0. first p0 \<and> fst (findAvailablePorts avail) = Inr \<lparr>adminPort = p0 + 1, webhookPort = p0\<rparr>)
      \<or> ((\<forall>p. \<not> first p) \<and> (\<exists>e. fst (findAvailablePorts avail) = Inl e))"
    using findAvailablePorts_cases [of avail] unfolding first_def by force
  have "fst (findAvailablePorts avail) = Inr r \<longleftrightarrow>
      (\<exists>p. r = \<lparr>adminPort = p + 1, webhookPort = p\<rparr> \<and> first p)"
  proof (rule disjE [OF cases])
    assume "\<exists>p0. first p0 \<and> fst (findAvailablePorts avail) = Inr \<lparr>adminPort = p0 + 1, webhookPort = p0\<rparr>"
    then obtain p0 where p0: "first p0"
      and res: "fst (findAvailablePorts avail) = Inr \<lparr>adminPort = p0 + 1, webhookPort = p0\<rparr>"
      by blast
    show ?thesis
    proof
      assume "fst (findAvailablePorts avail) = Inr r"
      with res have "r = \<lparr>adminPort = p0 + 1, webhookPort = p0\<rparr>" by simp
      with p0 show "\<exists>p. r = \<lparr>adminPort = p + 1, webhookPort = p\<rparr> \<and> first p" by blast
    next
      assume "\<exists>p. r = \<lparr>adminPort = p + 1, webhookPort = p\<rparr> \<and> first p"
      then obtain p where r: "r = \<lparr>adminPort = p + 1, webhookPort = p\<rparr>" and p: "first p" by blast
      from p p0 have "p = p0" by (rule uniq)
      with r res show "fst (findAvailablePorts avail) = Inr r" by simp
    qed
  next
    assume "(\<forall>p. \<not> first p) \<and> (\<exists>e. fst (findAvailablePorts avail) = Inl e)"
    then show ?thesis by auto
  qed
  then show ?thesis unfolding first_def by simp
qed

text \<open>
  With only 3006 and 3007 free the pair is \<open>adminPort = 3007\<close>, \<open>webhookPort = 3006\<close>.
\<close>

theorem findAvailablePorts_first_pair_witness:
  "fst (findAvailablePorts (\<lambda>p. p = 3006 \<or> p = 3007)) = Inr \<lparr>adminPort = 3007, webhookPort = 3006\<rparr>"
proof -
  have "\<forall>q::nat. 3002 \<le> q \<and> q < 3006 \<longrightarrow> \<not> ((q = 3006 \<or> q = 3007) \<and> (q + 1 = 3006 \<or> q + 1 = 3007))"
    by auto
  then have "\<exists>p::nat. \<lparr>adminPort = 3007, webhookPort = 3006\<rparr> = \<lparr>adminPort = p + 1, webhookPort = p\<rparr> \<and>
      3002 \<le> p \<and> p < 4000 \<and> (p = 3006 \<or> p = 3007) \<and> (p + 1 = 3006 \<or> p + 1 = 3007) \<and>
      (\<forall>q. 3002 \<le> q \<and> q < p \<longrightarrow> \<not> ((q = 3006 \<or> q = 3007) \<and> (q + 1 = 3006 \<or> q + 1 = 3007)))"
    by (intro exI [of _ 3006]) simp
  then show ?thesis
    by (simp only: findAvailablePorts_first_pair
        [of "\<lambda>p. p = 3006 \<or> p = 3007" "\<lparr>adminPort = 3007, webhookPort = 3006\<rparr>"])
qed

text \<open>
  Claim C10. In adjacent-pair mode the scan can probe and return a port one past the upper
  bound of its range: when no candidate below 3999 has both of its ports free and 3999 and
  4000 are free, port 4000 is probed and returned as \<open>adminPort\<close>, and 4000 is not a
  port of the range from 3002 up to but not including 4000.
\<close>

theorem findAvailablePorts_past_upper_bound:
  assumes "avail 3999" and "avail 4000"
    and "\<forall>q. 3002 \<le> q \<and> q < 3999 \<longrightarrow> \<not> (avail q \<and> avail (q + 1))"
  shows "fst (findAvailablePorts avail) = Inr \<lparr>adminPort = 4000, webhookPort = 3999\<rparr> \<and>
         4000 \<in> set (snd (findAvailablePorts avail)) \<and>
         4000 \<notin> {3002..<4000::nat}"
proof -
  have "findAvailablePorts avail =
      (Inr \<lparr>adminPort = 3999 + 1, webhookPort = 3999\<rparr>, [] @ pair_probes [3002..<Suc 3999])"
    unfolding findAvailablePorts_def
    using assms by (intro findAvailablePorts_from_hit) (auto)
  moreover have "4000 \<in> set (pair_probes [3002..<Suc 3999])"
    unfolding set_pair_probes
    by (rule UnI2, rule image_eqI [of _ _ 3999]) simp_all
  ultimately show ?thesis by simp
qed

text \<open>
  The occupancy in which 3999 and 4000 are the only free ports.
\<close>

theorem findAvailablePorts_past_upper_bound_witness:
  "fst (findAvailablePorts (\<lambda>p. p = 3999 \<or> p = 4000)) = Inr \<lparr>adminPort = 4000, webhookPort = 3999\<rparr> \<and>
   4000 \<in> set (snd (findAvailablePorts (\<lambda>p. p = 3999 \<or> p = 4000)))"
proof -
  have "\<forall>q::nat. 3002 \<le> q \<and> q < 3999 \<longrightarrow> \<not> ((q = 3999 \<or> q = 4000) \<and> (q + 1 = 3999 \<or> q + 1 = 4000))"
    by auto
  then show ?thesis
    using findAvailablePorts_past_upper_bound [of "\<lambda>p. p = 3999 \<or> p = 4000"] by simp
qed

section \<open>Evaluating concrete runs\<close>

lemma js_Nil: "js [] = []" by (simp add: js_def)
lemma js_Cons: "js (c # cs) = of_char c # js cs" by (simp add: js_def)

lemma start_simps:
  "trace (start input) = []" "stdin (start input) = input"
  "stdout (start input) = []" "stderr (start input) = []"
  by (simp_all add: start_def)

lemmas run_defs =
  cleanupWorktree_def cleanup_steps_def hasUnmergedCommits_def offer_cherry_pick_def
  remove_steps_def reconcile_def promptUser_def affirmative_def dollar_def run_def andThen_def
  tryCatch_def showError_def console_log_def world_def start_def
  trim_def isWhiteSpace_def toLowerCase_def js_Nil js_Cons Let_def events_since_def

section \<open>The listing of commits\<close>

lemma dropWhile_hd: "xs \<noteq> [] \<Longrightarrow> \<not> P (hd xs) \<Longrightarrow> dropWhile P xs = xs"
  by (cases xs) simp_all

lemma trim_id: "s \<noteq> [] \<Longrightarrow> \<not> isWhiteSpace (hd s) \<Longrightarrow> \<not> isWhiteSpace (last s) \<Longrightarrow> trim s = s"
  by (simp add: trim_def dropWhile_hd hd_rev)

lemma isWhiteSpace_newline: "isWhiteSpace 10"
  by (simp add: isWhiteSpace_def)

lemma trim_newline:
  assumes "s \<noteq> []" "\<not> isWhiteSpace (hd s)" "\<not> isWhiteSpace (last s)"
  shows "trim (s @ [10]) = s"
proof -
  have "dropWhile isWhiteSpace (s @ [10]) = s @ [10]"
    using assms by (intro dropWhile_hd) simp_all
  moreover have "isWhiteSpace 10" by (rule isWhiteSpace_newline)
  moreover have "dropWhile isWhiteSpace (rev s) = rev s"
    using assms by (intro dropWhile_hd) (simp_all add: hd_rev)
  ultimately show ?thesis by (simp add: trim_def)
qed

lemma split_no_sep: "sep \<notin> set c \<Longrightarrow> split sep c = [c]"
  by (induction c) auto

lemma split_append: "sep \<notin> set c \<Longrightarrow> split sep (c @ sep # rest) = c # split sep rest"
  by (induction c) auto

lemma commit_name_ends:
  assumes "commit_name c"
  shows "c \<noteq> []" "\<not> isWhiteSpace (hd c)" "\<not> isWhiteSpace (last c)"
proof -
  from assms show "c \<noteq> []" by (simp add: commit_name_def)
  moreover from assms have "\<forall>u\<in>set c. \<not> isWhiteSpace u" by (simp add: commit_name_def list_ex_iff)
  ultimately show "\<not> isWhiteSpace (hd c)" "\<not> isWhiteSpace (last c)" by simp_all
qed

lemma commit_name_trim: "commit_name c \<Longrightarrow> trim c = c"
  by (intro trim_id commit_name_ends)

lemma commit_name_no_newline: "commit_name c \<Longrightarrow> 10 \<notin> set c"
  using isWhiteSpace_newline by (auto simp: commit_name_def list_ex_iff)

lemma rev_list_output_join:
  "names \<noteq> [] \<Longrightarrow> rev_list_output names = join names [10] @ [10]"
  by (induction names "[10::nat]" rule: join.induct) (simp_all add: rev_list_output_def)

lemma join_ends:
  assumes "names \<noteq> []" "\<forall>c\<in>set names. commit_name c"
  shows "join names [10] \<noteq> [] \<and> \<not> isWhiteSpace (hd (join names [10])) \<and>
         \<not> isWhiteSpace (last (join names [10]))"
  using assms
proof (induction names "[10::nat]" rule: join.induct)
  case 1
  then show ?case by simp
next
  case (2 x)
  then show ?case by (simp add: commit_name_ends)
next
  case (3 x y ys)
  then have "x \<noteq> []" "\<not> isWhiteSpace (hd x)" by (simp_all add: commit_name_ends)
  with 3 show ?case by simp
qed

lemma split_join:
  "names \<noteq> [] \<Longrightarrow> \<forall>c\<in>set names. commit_name c \<Longrightarrow> split 10 (join names [10]) = names"
proof (induction names "[10::nat]" rule: join.induct)
  case 1
  then show ?case by simp
next
  case (2 x)
  then show ?case by (simp add: split_no_sep commit_name_no_newline)
next
  case (3 x y ys)
  then show ?case by (simp add: split_append commit_name_no_newline)
qed

lemma commits_to_pick_rev_list_output:
  assumes "\<forall>c\<in>set names. commit_name c"
  shows "commits_to_pick (rev_list_output names) = rev names"
proof (cases "names = []")
  case True
  then show ?thesis
    by (simp add: commits_to_pick_def rev_list_output_def nonblank_def trim_def)
next
  case False
  with assms have "trim (rev_list_output names) = join names [10]"
    using join_ends [of names] by (simp add: rev_list_output_join trim_newline)
  with False assms have "rev (split 10 (trim (rev_list_output names))) = rev names"
    by (simp add: split_join)
  moreover from assms have "nonblank (rev names) = rev names"
    by (auto simp: nonblank_def commit_name_trim commit_name_ends intro!: filter_True)
  ultimately show ?thesis by (simp add: commits_to_pick_def)
qed

section \<open>Steps of the program\<close>

lemma andThenE:
  assumes "andThen m f = (r, s')"
  obtains (ok) x s1 where "m = (Return x, s1)" "f x s1 = (r, s')"
    | (throw) e where "m = (Throw e, s')" "r = Throw e"
    | (exit) n where "m = (Exit n, s')" "r = Exit n"
    | (blocked) "m = (Blocked, s')" "r = Blocked"
  using assms unfolding andThen_def by (auto split: prod.splits result.splits)

lemma tryCatchE:
  assumes "tryCatch m h = (r, s')"
  obtains (caught) e s1 where "m = (Throw e, s1)" "h e s1 = (r, s')"
    | (passed) "m = (r, s')" "\<forall>e. r \<noteq> Throw e"
  using assms unfolding tryCatch_def by (auto split: prod.splits result.splits)

lemma dollarE:
  assumes "dollar E c s = (r, s')"
  obtains (ok) out where "r = Return out" "s' = s\<lparr>trace := trace s @ [Ran c 0 out]\<rparr>"
    | (fail) code out where "code \<noteq> 0" "r = Throw (ShellError code)"
        "s' = s\<lparr>trace := trace s @ [Ran c code out]\<rparr>"
  using assms unfolding dollar_def run_def by (auto split: prod.splits if_splits)

lemma promptUserE:
  assumes "promptUser q s = (r, s')"
  obtains (blocked) "r = Blocked" "stdin s = []" "s' = s\<lparr>stdout := stdout s @ [q @ js '' (y/N): '']\<rparr>"
    | (answered) data rest where "stdin s = data # rest" "r = Return (affirmative data)"
        "s' = s\<lparr>stdout := stdout s @ [q @ js '' (y/N): ''], stdin := rest\<rparr>"
  using assms unfolding promptUser_def by (auto simp: Let_def split: list.splits)

lemma hasUnmergedCommitsE:
  assumes "hasUnmergedCommits E b s = (r, s')"
  obtains code out where "s' = s\<lparr>trace := trace s @ [Ran (GitLog b) code out]\<rparr>"
     "r = Return (code = 0 \<and> trim out \<noteq> [])"
  using assms unfolding hasUnmergedCommits_def
  by (auto elim!: tryCatchE andThenE dollarE)


lemma pick_events_Nil [simp]: "pick_events [] outs = []" "pick_events cs [] = []"
  by (simp_all add: pick_events_def)

lemma pick_events_Cons [simp]:
  "pick_events (c # cs) (out # outs) = Ran (GitCherryPick c) 0 out # pick_events cs outs"
  by (simp add: pick_events_def)

lemma picked_append [simp]: "picked (xs @ ys) = picked xs @ picked ys"
  by (induction xs rule: picked.induct) simp_all

lemma picked_pick_events:
  "length outs = length cs \<Longrightarrow> picked (pick_events cs outs) = map (\<lambda>c. (c, 0)) cs"
  by (induction cs outs rule: list_induct2') simp_all

lemma destructive_pick_events [simp]: "e \<in> set (pick_events cs outs) \<Longrightarrow> \<not> destructive e"
  by (auto simp: pick_events_def)

lemma cherry_pick_eachE:
  assumes "cherry_pick_each E cs s = (r, s')"
  obtains (all) outs where "r = Return ()" "length outs = length (nonblank cs)"
      "s' = s\<lparr>trace := trace s @ pick_events (nonblank cs) outs\<rparr>"
    | (conflict) k outs code out where "k < length (nonblank cs)" "length outs = k" "code \<noteq> 0"
      "r = Throw (ShellError code)"
      "s' = s\<lparr>trace := trace s @ pick_events (take k (nonblank cs)) outs @
                          [Ran (GitCherryPick (nonblank cs ! k)) code out]\<rparr>"
proof -
  have "(\<exists>outs. r = Return () \<and> length outs = length (nonblank cs) \<and>
            s' = s\<lparr>trace := trace s @ pick_events (nonblank cs) outs\<rparr>) \<or>
        (\<exists>k outs code out. k < length (nonblank cs) \<and> length outs = k \<and> code \<noteq> 0 \<and>
            r = Throw (ShellError code) \<and>
            s' = s\<lparr>trace := trace s @ pick_events (take k (nonblank cs)) outs @
                          [Ran (GitCherryPick (nonblank cs ! k)) code out]\<rparr>)"
    using assms
  proof (induction cs arbitrary: s)
    case Nil
    then show ?case by (simp add: nonblank_def)
  next
    case (Cons c cs)
    show ?case
    proof (cases "trim c = []")
      case True
      with Cons.prems have "cherry_pick_each E cs s = (r, s')" by simp
      from Cons.IH [OF this] True show ?thesis by (simp add: nonblank_def)
    next
      case False
      with Cons.prems have
        "andThen (dollar E (GitCherryPick c) s) (\<lambda>_ s. cherry_pick_each E cs s) = (r, s')"
        by simp
      then show ?thesis
      proof (cases rule: andThenE)
        case (ok x s1)
        from ok(1) obtain out where s1: "s1 = s\<lparr>trace := trace s @ [Ran (GitCherryPick c) 0 out]\<rparr>"
          by (auto elim: dollarE)
        from Cons.IH [OF ok(2)] show ?thesis
        proof (elim disjE exE conjE)
          fix outs
          assume "r = Return ()" "length outs = length (nonblank cs)"
            "s' = s1\<lparr>trace := trace s1 @ pick_events (nonblank cs) outs\<rparr>"
          with s1 False have "r = Return () \<and> length (out # outs) = length (nonblank (c # cs)) \<and>
            s' = s\<lparr>trace := trace s @ pick_events (nonblank (c # cs)) (out # outs)\<rparr>"
            by (simp add: nonblank_def)
          then show ?thesis by blast
        next
          fix k outs code out'
          assume "k < length (nonblank cs)" "length outs = k" "code \<noteq> 0" "r = Throw (ShellError code)"
            "s' = s1\<lparr>trace := trace s1 @ pick_events (take k (nonblank cs)) outs @
                          [Ran (GitCherryPick (nonblank cs ! k)) code out']\<rparr>"
          with s1 False have "Suc k < length (nonblank (c # cs)) \<and> length (out # outs) = Suc k \<and>
            code \<noteq> 0 \<and> r = Throw (ShellError code) \<and>
            s' = s\<lparr>trace := trace s @ pick_events (take (Suc k) (nonblank (c # cs))) (out # outs) @
                          [Ran (GitCherryPick (nonblank (c # cs) ! Suc k)) code out']\<rparr>"
            by (simp add: nonblank_def)
          then show ?thesis by blast
        qed
      next
        case (throw e)
        from throw(1) obtain code out where "code \<noteq> 0" "e = ShellError code"
          "s' = s\<lparr>trace := trace s @ [Ran (GitCherryPick c) code out]\<rparr>"
          by (auto elim: dollarE)
        with throw(2) False have "0 < length (nonblank (c # cs)) \<and> length ([]::jsstr list) = 0 \<and>
            code \<noteq> 0 \<and> r = Throw (ShellError code) \<and>
            s' = s\<lparr>trace := trace s @ pick_events (take 0 (nonblank (c # cs))) [] @
                          [Ran (GitCherryPick (nonblank (c # cs) ! 0)) code out]\<rparr>"
          by (simp add: nonblank_def)
        then show ?thesis by blast
      next
        case (exit n)
        then show ?thesis by (auto elim: dollarE)
      next
        case blocked
        then show ?thesis by (auto elim: dollarE)
      qed
    qed
  qed
  then show ?thesis using all conflict by blast
qed

lemma reconcileE:
  assumes "reconcile E label s = (r, s')"
  obtains (checkout) code out where "code \<noteq> 0" "r = Throw (ShellError code)"
      "trace s' = trace s @ [Ran GitCheckoutMain code out]"
      "stderr s' = stderr s" "stdin s' = stdin s"
    | (revlist) o1 code out where "code \<noteq> 0" "r = Throw (ShellError code)"
      "trace s' = trace s @ [Ran GitCheckoutMain 0 o1, Ran (GitRevList label) code out]"
      "stderr s' = stderr s" "stdin s' = stdin s"
    | (picked_all) o1 listing outs where "r = Return ()"
      "length outs = length (commits_to_pick listing)"
      "trace s' = trace s @ [Ran GitCheckoutMain 0 o1, Ran (GitRevList label) 0 listing] @
          pick_events (commits_to_pick listing) outs"
      "stderr s' = stderr s" "stdin s' = stdin s"
    | (conflict) o1 listing k outs code out where "r = Throw (ShellError code)" "code \<noteq> 0"
      "k < length (commits_to_pick listing)" "length outs = k"
      "trace s' = trace s @ [Ran GitCheckoutMain 0 o1, Ran (GitRevList label) 0 listing] @
          pick_events (take k (commits_to_pick listing)) outs @
          [Ran (GitCherryPick (commits_to_pick listing ! k)) code out]"
      "stderr s' = stderr s" "stdin s' = stdin s"
  using assms unfolding reconcile_def Let_def commits_to_pick_def
  by (elim andThenE dollarE cherry_pick_eachE) (auto simp: console_log_def)

lemma remove_stepsE:
  assumes "remove_steps E label path s = (r, s')"
  obtains (removed) o1 o2 o3 where "r = Return ()"
      "trace s' = trace s @ [Ran (GitWorktreeRemove path) 0 o1, Ran (GitBranchDelete label) 0 o2,
                              Ran (ZellijDeleteSession (js ''wt-'' @ label)) 0 o3]"
      "stderr s' = stderr s" "stdin s' = stdin s"
    | (worktree) code out where "code \<noteq> 0" "r = Throw (ShellError code)"
      "trace s' = trace s @ [Ran (GitWorktreeRemove path) code out]"
      "stderr s' = stderr s" "stdin s' = stdin s"
    | (branch) o1 code out where "code \<noteq> 0" "r = Throw (ShellError code)"
      "trace s' = trace s @ [Ran (GitWorktreeRemove path) 0 o1, Ran (GitBranchDelete label) code out]"
      "stderr s' = stderr s" "stdin s' = stdin s"
    | (session) o1 o2 code out where "code \<noteq> 0" "r = Throw (ShellError code)"
      "trace s' = trace s @ [Ran (GitWorktreeRemove path) 0 o1, Ran (GitBranchDelete label) 0 o2,
                              Ran (ZellijDeleteSession (js ''wt-'' @ label)) code out]"
      "stderr s' = stderr s" "stdin s' = stdin s"
  using assms unfolding remove_steps_def
  by (elim andThenE dollarE) (auto simp: console_log_def)

lemma offer_cherry_pickE:
  assumes "offer_cherry_pick E label h s = (r, s')"
  obtains (skipped) "\<not> h" "r = Return ()" "s' = s"
    | (blocked) "h" "stdin s = []" "r = Blocked" "trace s' = trace s" "stderr s' = stderr s"
    | (declined) data rest where "h" "stdin s = data # rest" "\<not> affirmative data" "r = Return ()"
        "trace s' = trace s" "stderr s' = stderr s" "stdin s' = rest"
    | (consented) data rest s1 where "h" "stdin s = data # rest" "affirmative data"
        "trace s1 = trace s" "stderr s1 = stderr s" "stdin s1 = rest"
        "reconcile E label s1 = (r, s')"
proof (cases h)
  case False
  with assms skipped show ?thesis by (simp add: offer_cherry_pick_def)
next
  case True
  define q where "q = js ''Do you want to cherry-pick them into main first?''"
  define s0 where "s0 = console_log (js ''Branch '' @ [39] @ label @ [39] @
                                 js '' has commits not merged into main.'') s"
  have s0: "trace s0 = trace s" "stderr s0 = stderr s" "stdin s0 = stdin s"
    by (simp_all add: s0_def console_log_def)
  from assms True have
    "andThen (promptUser q s0)
       (\<lambda>shouldCherryPick s. if shouldCherryPick then reconcile E label s else (Return (), s)) = (r, s')"
    by (simp add: offer_cherry_pick_def q_def s0_def)
  then show ?thesis
  proof (cases rule: andThenE)
    case (ok x s1)
    from ok(1) obtain data rest where d: "stdin s0 = data # rest" "x = affirmative data"
      and s1: "s1 = s0\<lparr>stdout := stdout s0 @ [q @ js '' (y/N): ''], stdin := rest\<rparr>"
      by (auto elim: promptUserE)
    from s1 s0 have s1': "trace s1 = trace s" "stderr s1 = stderr s" "stdin s1 = rest" by simp_all
    show ?thesis
    proof (cases "affirmative data")
      case True
      with ok(2) d have "reconcile E label s1 = (r, s')" by simp
      with True d s0 s1' \<open>h\<close> show ?thesis by (intro consented [where data = data and rest = rest and ?s1.0 = s1]) simp_all
    next
      case False
      with ok(2) d have "r = Return ()" "s' = s1" by simp_all
      with False d s0 s1' \<open>h\<close> show ?thesis by (intro declined [where data = data and rest = rest]) simp_all
    qed
  next
    case (throw e)
    then show ?thesis by (auto elim: promptUserE)
  next
    case (exit n)
    then show ?thesis by (auto elim: promptUserE)
  next
    case blocked
    then have "stdin s0 = []" "trace s' = trace s0" "stderr s' = stderr s0"
      by (auto elim: promptUserE)
    with s0 blocked(2) \<open>h\<close> show ?thesis by (intro that(2)) simp_all
  qed
qed

section \<open>Events of the cleanup\<close>

lemma in_pick_events:
  "Ran c code out \<in> set (pick_events cs outs) \<Longrightarrow> code = 0 \<and> (\<exists>commit. c = GitCherryPick commit)"
  by (auto simp: pick_events_def)

lemma picked_pick_events_take:
  "k < length cs \<Longrightarrow> length outs = k \<Longrightarrow>
   picked (pick_events (take k cs) outs) = map (\<lambda>c. (c, 0)) (take k cs)"
  by (rule picked_pick_events) simp

lemma reconcile_events:
  assumes "reconcile E label s = (r, s')"
  obtains A where "trace s' = trace s @ A" "stderr s' = stderr s" "\<forall>e\<in>set A. \<not> destructive e"
    "\<forall>n. r \<noteq> Exit n" "r \<noteq> Blocked"
  using assms by (cases rule: reconcileE) auto

lemma reconcile_conflict:
  assumes "reconcile E label s = (r, s')" and "trace s' = trace s @ A"
    and "Ran (GitCherryPick c) code out \<in> set A" and "code \<noteq> 0"
  shows "r = Throw (ShellError code) \<and>
         (\<exists>listing k. Ran (GitRevList label) 0 listing \<in> set A \<and>
             k < length (commits_to_pick listing) \<and> c = commits_to_pick listing ! k \<and>
             picked A = map (\<lambda>c. (c, 0)) (take k (commits_to_pick listing)) @ [(c, code)] \<and>
             (\<exists>o1 outs. length outs = k \<and>
                A = [Ran GitCheckoutMain 0 o1, Ran (GitRevList label) 0 listing] @
                    pick_events (take k (commits_to_pick listing)) outs @
                    [Ran (GitCherryPick c) code out])) \<and>
         last A = Ran (GitCherryPick c) code out"
  using assms(1)
proof (cases rule: reconcileE)
  case (checkout code' out')
  with assms show ?thesis by auto
next
  case (revlist o1 code' out')
  with assms show ?thesis by auto
next
  case (picked_all o1 listing outs)
  with assms show ?thesis by (auto dest: in_pick_events)
next
  case (conflict o1 listing k outs code' out')
  from conflict(5) assms(2) have A: "A = [Ran GitCheckoutMain 0 o1, Ran (GitRevList label) 0 listing] @
          pick_events (take k (commits_to_pick listing)) outs @
          [Ran (GitCherryPick (commits_to_pick listing ! k)) code' out']" by simp
  with assms(3,4) have eq: "c = commits_to_pick listing ! k" "code = code'" "out = out'"
    by (auto dest: in_pick_events)
  have "picked A = map (\<lambda>c. (c, 0)) (take k (commits_to_pick listing)) @ [(c, code)]"
    using conflict(3,4) by (simp add: A eq picked_pick_events_take)
  moreover have "Ran (GitRevList label) 0 listing \<in> set A" by (simp add: A)
  moreover have "last A = Ran (GitCherryPick c) code out" by (simp add: A eq)
  moreover have "\<exists>o1 outs. length outs = k \<and>
      A = [Ran GitCheckoutMain 0 o1, Ran (GitRevList label) 0 listing] @
          pick_events (take k (commits_to_pick listing)) outs @
          [Ran (GitCherryPick c) code out]"
    using A eq conflict(4) by blast
  ultimately show ?thesis using conflict(1,3) eq by blast
qed

lemma offer_cherry_pick_events:
  assumes "offer_cherry_pick E label h s = (r, s')"
  obtains A where "trace s' = trace s @ A" "stderr s' = stderr s" "\<forall>e\<in>set A. \<not> destructive e"
    "\<forall>n. r \<noteq> Exit n"
  using assms
proof (cases rule: offer_cherry_pickE)
  case (consented data rest s1)
  from consented(7) obtain A where "trace s' = trace s1 @ A" "stderr s' = stderr s1"
    "\<forall>e\<in>set A. \<not> destructive e" "\<forall>n. r \<noteq> Exit n"
    by (rule reconcile_events)
  with consented that show ?thesis by simp
qed (auto intro: that)

lemma offer_cherry_pick_conflict:
  assumes "offer_cherry_pick E label h s = (r, s')" and "trace s' = trace s @ A"
    and "Ran (GitCherryPick c) code out \<in> set A" and "code \<noteq> 0"
  shows "r = Throw (ShellError code) \<and>
         (\<exists>listing k. Ran (GitRevList label) 0 listing \<in> set A \<and>
             k < length (commits_to_pick listing) \<and> c = commits_to_pick listing ! k \<and>
             picked A = map (\<lambda>c. (c, 0)) (take k (commits_to_pick listing)) @ [(c, code)] \<and>
             (\<exists>o1 outs. length outs = k \<and>
                A = [Ran GitCheckoutMain 0 o1, Ran (GitRevList label) 0 listing] @
                    pick_events (take k (commits_to_pick listing)) outs @
                    [Ran (GitCherryPick c) code out])) \<and>
         last A = Ran (GitCherryPick c) code out"
  using assms(1)
proof (cases rule: offer_cherry_pickE)
  case (consented data rest s1)
  from consented(4) assms(2) have "trace s' = trace s1 @ A" by simp
  from reconcile_conflict [OF consented(7) this assms(3,4)] show ?thesis .
qed (use assms in auto)

lemma remove_steps_events:
  assumes "remove_steps E label path s = (r, s')"
  obtains B where "trace s' = trace s @ B" "stderr s' = stderr s" "\<forall>e\<in>set B. destructive e"
    "\<forall>n. r \<noteq> Exit n" "r \<noteq> Blocked"
  using assms by (cases rule: remove_stepsE) auto

lemma remove_steps_session_failure:
  assumes "remove_steps E label path s = (r, s')" and "trace s' = trace s @ B"
    and "Ran (ZellijDeleteSession n) code out \<in> set B" and "code \<noteq> 0"
  shows "r = Throw (ShellError code) \<and>
         (\<exists>o1 o2. B = [Ran (GitWorktreeRemove path) 0 o1, Ran (GitBranchDelete label) 0 o2,
                        Ran (ZellijDeleteSession (js ''wt-'' @ label)) code out])"
  using assms(1)
  by (cases rule: remove_stepsE) (use assms(2-) in auto)

lemma cleanup_stepsE:
  assumes "cleanup_steps E label path s = (r, s')"
  obtains (stopped) c0 o0 s1 where
      "trace s1 = trace s @ [Ran (GitLog label) c0 o0]" "stderr s1 = stderr s" "stdin s1 = stdin s"
      "offer_cherry_pick E label (c0 = 0 \<and> trim o0 \<noteq> []) s1 = (r, s')" "r \<noteq> Return ()"
    | (removing) c0 o0 s1 s2 where
      "trace s1 = trace s @ [Ran (GitLog label) c0 o0]" "stderr s1 = stderr s" "stdin s1 = stdin s"
      "offer_cherry_pick E label (c0 = 0 \<and> trim o0 \<noteq> []) s1 = (Return (), s2)"
      "remove_steps E label path s2 = (r, s')"
proof -
  from assms have "andThen (hasUnmergedCommits E label s) (\<lambda>hasUnmerged s.
     andThen (offer_cherry_pick E label hasUnmerged s) (\<lambda>_ s.
       remove_steps E label path s)) = (r, s')"
    by (simp add: cleanup_steps_def)
  then show ?thesis
  proof (cases rule: andThenE)
    case (ok h s1)
    from ok(1) obtain c0 o0 where s1: "s1 = s\<lparr>trace := trace s @ [Ran (GitLog label) c0 o0]\<rparr>"
      and h: "h = (c0 = 0 \<and> trim o0 \<noteq> [])"
      by (rule hasUnmergedCommitsE) simp
    from s1 have s1': "trace s1 = trace s @ [Ran (GitLog label) c0 o0]" "stderr s1 = stderr s"
      "stdin s1 = stdin s" by simp_all
    from ok(2) show ?thesis
    proof (cases rule: andThenE)
      case (ok x s2)
      with s1' h show ?thesis by (intro removing [where ?s1.0 = s1 and ?c0.0 = c0 and ?o0.0 = o0 and ?s2.0 = s2]) simp_all
    next
      case (throw e)
      with s1' h show ?thesis by (intro stopped [where ?s1.0 = s1 and ?c0.0 = c0 and ?o0.0 = o0]) simp_all
    next
      case (exit n)
      with s1' h show ?thesis by (intro stopped [where ?s1.0 = s1 and ?c0.0 = c0 and ?o0.0 = o0]) simp_all
    next
      case blocked
      with s1' h show ?thesis by (intro stopped [where ?s1.0 = s1 and ?c0.0 = c0 and ?o0.0 = o0]) simp_all
    qed
  qed (auto elim: hasUnmergedCommitsE)
qed

lemma cleanup_steps_never_exits:
  assumes "cleanup_steps E label path s = (r, s')"
  shows "r \<noteq> Exit n"
  using assms
proof (cases rule: cleanup_stepsE)
  case (stopped c0 o0 s1)
  then show ?thesis by (auto elim: offer_cherry_pick_events)
next
  case (removing c0 o0 s1 s2)
  then show ?thesis by (auto elim: remove_steps_events)
qed

lemma cleanupWorktreeE:
  assumes "cleanupWorktree E label configDir s = (r, s')"
  obtains (absent) "\<not> existsSync E (trace s) (cwd E @ js ''/'' @ configDir @ js ''/worktrees/'' @ label)"
      "r = Return ()" "trace s' = trace s" "stderr s' = stderr s" "stdin s' = stdin s"
    | (finished) s0 where "existsSync E (trace s) (cwd E @ js ''/'' @ configDir @ js ''/worktrees/'' @ label)"
      "trace s0 = trace s" "stderr s0 = stderr s" "stdin s0 = stdin s"
      "cleanup_steps E label (cwd E @ js ''/'' @ configDir @ js ''/worktrees/'' @ label) s0 = (r, s')"
      "r = Return () \<or> r = Blocked"
    | (failed) s0 s1 e where "existsSync E (trace s) (cwd E @ js ''/'' @ configDir @ js ''/worktrees/'' @ label)"
      "trace s0 = trace s" "stderr s0 = stderr s" "stdin s0 = stdin s"
      "cleanup_steps E label (cwd E @ js ''/'' @ configDir @ js ''/worktrees/'' @ label) s0 = (Throw e, s1)"
      "r = Exit 1" "trace s' = trace s1" "stdin s' = stdin s1"
      "stderr s' = stderr s1 @ [js ''Error: '' @ js ''Failed to cleanup worktree: '' @ toString_exn E e @ [10]]"
proof (cases "existsSync E (trace s) (cwd E @ js ''/'' @ configDir @ js ''/worktrees/'' @ label)")
  case False
  with assms absent show ?thesis
    by (auto simp: cleanupWorktree_def console_log_def Let_def)
next
  case True
  define path where "path = cwd E @ js ''/'' @ configDir @ js ''/worktrees/'' @ label"
  define s0 where "s0 = console_log (js ''Cleaning up worktree: '' @ path) s"
  have s0: "trace s0 = trace s" "stderr s0 = stderr s" "stdin s0 = stdin s"
    by (simp_all add: s0_def console_log_def)
  from assms True have "tryCatch (cleanup_steps E label path s0)
      (\<lambda>error s. showError (js ''Failed to cleanup worktree: '' @ toString_exn E error) s) = (r, s')"
    by (simp add: cleanupWorktree_def path_def s0_def Let_def)
  then show ?thesis
  proof (cases rule: tryCatchE)
    case (caught e s1)
    from caught(2) have "r = Exit 1" "trace s' = trace s1" "stdin s' = stdin s1"
      "stderr s' = stderr s1 @ [js ''Error: '' @ js ''Failed to cleanup worktree: '' @ toString_exn E e @ [10]]"
      by (auto simp: showError_def)
    with caught(1) True s0 show ?thesis
      unfolding path_def by (intro failed [where ?s0.0 = s0 and ?s1.0 = s1 and e = e]) simp_all
  next
    case passed
    from passed(1) have "\<forall>n. r \<noteq> Exit n" by (auto dest: cleanup_steps_never_exits)
    with passed(2) have "r = Return () \<or> r = Blocked" by (cases r) auto
    with passed(1) True s0 show ?thesis
      unfolding path_def by (intro finished [where ?s0.0 = s0]) simp_all
  qed
qed


lemma events_since_append:
  "trace s' = trace s @ evs \<Longrightarrow> events_since s s' = evs"
  by (simp add: events_since_def)

text \<open>
  Claim C1. If a cherry-pick issued by the reconciliation step of \<open>cleanupWorktree\<close> fails,
  the cleanup ends the process with status 1 and an error message. What the cleanup did
  is then exactly: the query for unmerged commits, \<^verbatim>\<open>git checkout main\<close> with status 0,
  \<^verbatim>\<open>git rev-list\<close> with status 0, the cherry-picks, with status 0, of the commits before
  the failing one in the oldest-first order, and the failed cherry-pick. So the earlier
  commits were applied on main, no later commit was cherry-picked, and neither the removal
  of the worktree, nor the deletion of the branch, nor the deletion of the session was
  invoked.
\<close>

theorem cleanup_cherry_pick_conflict:
  assumes "cleanupWorktree E label configDir s = (r, s')"
    and "Ran (GitCherryPick c) code out \<in> set (events_since s s')"
    and "code \<noteq> 0"
  shows "r = Exit 1 \<and>
         stderr s' = stderr s @
           [js ''Error: '' @ js ''Failed to cleanup worktree: '' @ toString_exn E (ShellError code) @ [10]] \<and>
         (\<exists>listing k. Ran (GitRevList label) 0 listing \<in> set (events_since s s') \<and>
             k < length (commits_to_pick listing) \<and> c = commits_to_pick listing ! k \<and>
             picked (events_since s s') =
               map (\<lambda>c. (c, 0)) (take k (commits_to_pick listing)) @ [(c, code)] \<and>
             (\<exists>c0 o0 o1 outs. length outs = k \<and>
                events_since s s' =
                  [Ran (GitLog label) c0 o0, Ran GitCheckoutMain 0 o1, Ran (GitRevList label) 0 listing] @
                  pick_events (take k (commits_to_pick listing)) outs @
                  [Ran (GitCherryPick c) code out])) \<and>
         last (events_since s s') = Ran (GitCherryPick c) code out \<and>
         (\<forall>e\<in>set (events_since s s'). \<not> destructive e)"
  using assms(1)
proof (cases rule: cleanupWorktreeE)
  case absent
  with assms(2) show ?thesis by (simp add: events_since_def)
next
  case (finished s0)
  from finished(5) show ?thesis
  proof (cases rule: cleanup_stepsE)
    case (stopped c0 o0 s1)
    from stopped(4) obtain A where A: "trace s' = trace s1 @ A"
      by (rule offer_cherry_pick_events)
    with stopped(1) finished(2) have ev: "events_since s s' = Ran (GitLog label) c0 o0 # A"
      by (simp add: events_since_def)
    with assms(2) have "Ran (GitCherryPick c) code out \<in> set A" by simp
    from offer_cherry_pick_conflict [OF stopped(4) A this assms(3)] finished(6)
    show ?thesis by simp
  next
    case (removing c0 o0 s1 s2)
    from removing(4) obtain A where A: "trace s2 = trace s1 @ A"
      by (rule offer_cherry_pick_events)
    from removing(5) obtain B where B: "trace s' = trace s2 @ B" "\<forall>e\<in>set B. destructive e"
      by (rule remove_steps_events)
    from A B removing(1) finished(2) have ev: "events_since s s' = Ran (GitLog label) c0 o0 # A @ B"
      by (simp add: events_since_def)
    with assms(2) B(2) have "Ran (GitCherryPick c) code out \<in> set A" by auto
    from offer_cherry_pick_conflict [OF removing(4) A this assms(3)]
    show ?thesis by simp
  qed
next
  case (failed s0 s1 e)
  from failed(5) show ?thesis
  proof (cases rule: cleanup_stepsE)
    case (stopped c0 o0 s2)
    from stopped(4) obtain A where A: "trace s1 = trace s2 @ A" "stderr s1 = stderr s2"
      "\<forall>e\<in>set A. \<not> destructive e"
      by (rule offer_cherry_pick_events)
    with stopped(1,2) failed(2,3,7) have ev: "events_since s s' = Ran (GitLog label) c0 o0 # A"
      and err: "stderr s1 = stderr s"
      by (simp_all add: events_since_def)
    with assms(2) have in_A: "Ran (GitCherryPick c) code out \<in> set A" by simp
    then have "A \<noteq> []" by auto
    from offer_cherry_pick_conflict [OF stopped(4) A(1) in_A assms(3)]
    obtain listing k o1 outs where "e = ShellError code"
      and listing: "Ran (GitRevList label) 0 listing \<in> set A"
        "k < length (commits_to_pick listing)" "c = commits_to_pick listing ! k"
        "picked A = map (\<lambda>c. (c, 0)) (take k (commits_to_pick listing)) @ [(c, code)]"
        "length outs = k"
      and shape: "A = [Ran GitCheckoutMain 0 o1, Ran (GitRevList label) 0 listing] @
                    pick_events (take k (commits_to_pick listing)) outs @
                    [Ran (GitCherryPick c) code out]"
      and "last A = Ran (GitCherryPick c) code out"
      by blast
    from shape have whole: "events_since s s' =
        [Ran (GitLog label) c0 o0, Ran GitCheckoutMain 0 o1, Ran (GitRevList label) 0 listing] @
        pick_events (take k (commits_to_pick listing)) outs @ [Ran (GitCherryPick c) code out]"
      by (simp add: ev)
    have "Ran (GitRevList label) 0 listing \<in> set (events_since s s')"
      using listing(1) by (simp add: ev)
    moreover have "picked (events_since s s') =
        map (\<lambda>c. (c, 0)) (take k (commits_to_pick listing)) @ [(c, code)]"
      using listing(4) by (simp add: ev)
    moreover have "\<exists>c0 o0 o1 outs. length outs = k \<and> events_since s s' =
        [Ran (GitLog label) c0 o0, Ran GitCheckoutMain 0 o1, Ran (GitRevList label) 0 listing] @
        pick_events (take k (commits_to_pick listing)) outs @ [Ran (GitCherryPick c) code out]"
      using whole listing(5) by blast
    moreover have "last (events_since s s') = Ran (GitCherryPick c) code out"
      using \<open>last A = Ran (GitCherryPick c) code out\<close> \<open>A \<noteq> []\<close> by (simp add: ev)
    moreover have "\<forall>e\<in>set (events_since s s'). \<not> destructive e"
      using A(3) by (simp add: ev)
    moreover have "r = Exit 1" by (rule failed(6))
    moreover have "stderr s' = stderr s @
        [js ''Error: '' @ js ''Failed to cleanup worktree: '' @ toString_exn E (ShellError code) @ [10]]"
      using failed(9) err \<open>e = ShellError code\<close> by simp
    ultimately show ?thesis using listing(2,3) by blast
  next
    case (removing c0 o0 s2 s3)
    from removing(4) obtain A where A: "trace s3 = trace s2 @ A"
      by (rule offer_cherry_pick_events)
    from removing(5) obtain B where B: "trace s1 = trace s3 @ B" "\<forall>e\<in>set B. destructive e"
      by (rule remove_steps_events)
    from A B removing(1) failed(2,7) have ev: "events_since s s' = Ran (GitLog label) c0 o0 # A @ B"
      by (simp add: events_since_def)
    with assms(2) B(2) have "Ran (GitCherryPick c) code out \<in> set A" by auto
    from offer_cherry_pick_conflict [OF removing(4) A this assms(3)]
    show ?thesis by simp
  qed
qed

lemma conflict_run:
  "fst (cleanupWorktree (world conflict_answers NoFile) (js ''a'') (js ''.wt'') (start [js ''y'' @ [10]])) = Exit 1"
  "trace (snd (cleanupWorktree (world conflict_answers NoFile) (js ''a'') (js ''.wt'') (start [js ''y'' @ [10]]))) =
     [Ran (GitLog (js ''a'')) 0 (js ''c3 third''),
      Ran GitCheckoutMain 0 [],
      Ran (GitRevList (js ''a'')) 0 (js ''c3'' @ [10] @ js ''c2'' @ [10] @ js ''c1'' @ [10]),
      Ran (GitCherryPick (js ''c1'')) 0 [],
      Ran (GitCherryPick (js ''c2'')) 1 []]"
  by (simp_all add: run_defs conflict_answers_def)

text \<open>
  A run in which the cherry-pick of c2 fails: main was checked out, c1 was picked, the
  process exits with status 1 and nothing destructive was invoked.
\<close>

theorem cleanup_cherry_pick_conflict_witness:
  "Ran (GitCherryPick (js ''c2'')) 1 [] \<in>
     set (events_since (start [js ''y'' @ [10]])
            (snd (cleanupWorktree (world conflict_answers NoFile) (js ''a'') (js ''.wt'') (start [js ''y'' @ [10]])))) \<and>
   fst (cleanupWorktree (world conflict_answers NoFile) (js ''a'') (js ''.wt'') (start [js ''y'' @ [10]])) = Exit 1 \<and>
   filter destructive (events_since (start [js ''y'' @ [10]])
            (snd (cleanupWorktree (world conflict_answers NoFile) (js ''a'') (js ''.wt'') (start [js ''y'' @ [10]])))) = [] \<and>
   events_since (start [js ''y'' @ [10]])
     (snd (cleanupWorktree (world conflict_answers NoFile) (js ''a'') (js ''.wt'') (start [js ''y'' @ [10]]))) =
     [Ran (GitLog (js ''a'')) 0 (js ''c3 third''),
      Ran GitCheckoutMain 0 [],
      Ran (GitRevList (js ''a'')) 0 (js ''c3'' @ [10] @ js ''c2'' @ [10] @ js ''c1'' @ [10]),
      Ran (GitCherryPick (js ''c1'')) 0 [],
      Ran (GitCherryPick (js ''c2'')) 1 []]"
proof -
  let ?s = "start [js ''y'' @ [10]]"
  let ?run = "cleanupWorktree (world conflict_answers NoFile) (js ''a'') (js ''.wt'') ?s"
  have run: "?run = (fst ?run, snd ?run)" by simp
  have ev: "Ran (GitCherryPick (js ''c2'')) 1 [] \<in> set (events_since ?s (snd ?run))"
    by (simp add: events_since_def conflict_run(2) start_simps)
  have whole: "events_since ?s (snd ?run) =
     [Ran (GitLog (js ''a'')) 0 (js ''c3 third''),
      Ran GitCheckoutMain 0 [],
      Ran (GitRevList (js ''a'')) 0 (js ''c3'' @ [10] @ js ''c2'' @ [10] @ js ''c1'' @ [10]),
      Ran (GitCherryPick (js ''c1'')) 0 [],
      Ran (GitCherryPick (js ''c2'')) 1 []]"
    by (simp add: events_since_def conflict_run(2) start_simps)
  from cleanup_cherry_pick_conflict [OF run ev]
  have "fst ?run = Exit 1" "\<forall>e\<in>set (events_since ?s (snd ?run)). \<not> destructive e"
    by simp_all
  then have "fst ?run = Exit 1" "filter destructive (events_since ?s (snd ?run)) = []"
    by (simp_all only: filter_empty_conv)
  with ev whole show ?thesis by (intro conjI)
qed

lemma no_session_run:
  "fst (cleanupWorktree (world no_session_answers NoFile) (js ''a'') (js ''.wt'') (start [])) = Exit 1"
  "trace (snd (cleanupWorktree (world no_session_answers NoFile) (js ''a'') (js ''.wt'') (start []))) =
     [Ran (GitLog (js ''a'')) 0 [],
      Ran (GitWorktreeRemove (js ''/repo'' @ js ''/'' @ js ''.wt'' @ js ''/worktrees/'' @ js ''a'')) 0 [],
      Ran (GitBranchDelete (js ''a'')) 0 [],
      Ran (ZellijDeleteSession (js ''wt-'' @ js ''a'')) 1 []]"
  by (simp_all add: run_defs no_session_answers_def)

text \<open>
  Claim C2, as stated, fails. In this run the worktree is removed and the branch is
  deleted with status 0, \<^verbatim>\<open>zellij delete-session\<close> exits with status 1, and the cleanup
  ends the process with status 1 instead of completing.
\<close>

theorem session_deletion_not_best_effort:
  "fst (cleanupWorktree (world no_session_answers NoFile) (js ''a'') (js ''.wt'') (start [])) = Exit 1 \<and>
   trace (snd (cleanupWorktree (world no_session_answers NoFile) (js ''a'') (js ''.wt'') (start []))) =
     [Ran (GitLog (js ''a'')) 0 [],
      Ran (GitWorktreeRemove (js ''/repo'' @ js ''/'' @ js ''.wt'' @ js ''/worktrees/'' @ js ''a'')) 0 [],
      Ran (GitBranchDelete (js ''a'')) 0 [],
      Ran (ZellijDeleteSession (js ''wt-'' @ js ''a'')) 1 []]"
  using no_session_run by simp

text \<open>
  Claim C2, amended. During \<open>cleanupWorktree\<close> the deletion of the multiplexer session is
  an awaited shell command inside the \<^verbatim>\<open>try\<close> block like the others: when it exits with a
  non-zero status, after the worktree was removed and the branch deleted with status 0,
  the failure is reported on standard error and the process exits with status 1.
\<close>

theorem cleanup_session_deletion_fatal:
  assumes "cleanupWorktree E label configDir s = (r, s')"
    and "Ran (ZellijDeleteSession n) code out \<in> set (events_since s s')"
    and "code \<noteq> 0"
  shows "r = Exit 1 \<and>
         stderr s' = stderr s @
           [js ''Error: '' @ js ''Failed to cleanup worktree: '' @ toString_exn E (ShellError code) @ [10]] \<and>
         n = js ''wt-'' @ label \<and>
         (\<exists>before o1 o2. events_since s s' = before @
            [Ran (GitWorktreeRemove (cwd E @ js ''/'' @ configDir @ js ''/worktrees/'' @ label)) 0 o1,
             Ran (GitBranchDelete label) 0 o2,
             Ran (ZellijDeleteSession (js ''wt-'' @ label)) code out])"
proof -
  define path where "path = cwd E @ js ''/'' @ configDir @ js ''/worktrees/'' @ label"
  have no_stop: False
    if "trace s0 = trace s" "trace s1 = trace s0 @ [Ran (GitLog label) c0 o0]"
      "offer_cherry_pick E label h s1 = (r0, s2)" "trace s' = trace s2" for s0 s1 s2 c0 o0 h r0
  proof -
    from that(3) obtain A where "trace s2 = trace s1 @ A" "\<forall>e\<in>set A. \<not> destructive e"
      by (rule offer_cherry_pick_events)
    with that(1,2,4) have "events_since s s' = Ran (GitLog label) c0 o0 # A"
      by (simp add: events_since_def)
    with assms(2) \<open>\<forall>e\<in>set A. \<not> destructive e\<close> show False by auto
  qed
  have removal: "r0 = Throw (ShellError code) \<and> stderr s3 = stderr s \<and> n = js ''wt-'' @ label \<and>
      (\<exists>before o1 o2. events_since s s' = before @
            [Ran (GitWorktreeRemove path) 0 o1, Ran (GitBranchDelete label) 0 o2,
             Ran (ZellijDeleteSession (js ''wt-'' @ label)) code out])"
    if "trace s0 = trace s" "stderr s0 = stderr s"
      "trace s1 = trace s0 @ [Ran (GitLog label) c0 o0]" "stderr s1 = stderr s0"
      "offer_cherry_pick E label h s1 = (Return (), s2)"
      "remove_steps E label path s2 = (r0, s3)" "trace s' = trace s3" for s0 s1 s2 s3 c0 o0 h r0
  proof -
    from that(5) obtain A where A: "trace s2 = trace s1 @ A" "stderr s2 = stderr s1"
      "\<forall>e\<in>set A. \<not> destructive e"
      by (rule offer_cherry_pick_events)
    from that(6) obtain B where B: "trace s3 = trace s2 @ B" "stderr s3 = stderr s2"
      by (rule remove_steps_events)
    from A B that(1,3,7) have ev: "events_since s s' = (Ran (GitLog label) c0 o0 # A) @ B"
      by (simp add: events_since_def)
    with assms(2) A(3) have in_B: "Ran (ZellijDeleteSession n) code out \<in> set B" by auto
    from remove_steps_session_failure [OF that(6) B(1) in_B assms(3)]
    obtain o1 o2 where r0: "r0 = Throw (ShellError code)"
      and Beq: "B = [Ran (GitWorktreeRemove path) 0 o1, Ran (GitBranchDelete label) 0 o2,
                    Ran (ZellijDeleteSession (js ''wt-'' @ label)) code out]"
      by blast
    from in_B Beq have "n = js ''wt-'' @ label" by simp
    moreover from A(2) B(2) that(2,4) have "stderr s3 = stderr s" by simp
    ultimately show ?thesis using r0 ev Beq by blast
  qed
  from assms(1) show ?thesis
  proof (cases rule: cleanupWorktreeE)
    case absent
    with assms(2) show ?thesis by (simp add: events_since_def)
  next
    case (finished s0)
    from finished(5) show ?thesis
    proof (cases rule: cleanup_stepsE)
      case (stopped c0 o0 s1)
      from no_stop [OF finished(2) _ stopped(4)] stopped(1) finished(2) show ?thesis by simp
    next
      case (removing c0 o0 s1 s2)
      from removal [of s0 s1 c0 o0 _ s2 r s'] removing finished show ?thesis
        unfolding path_def by auto
    qed
  next
    case (failed s0 s1 e)
    from failed(5) show ?thesis
    proof (cases rule: cleanup_stepsE)
      case (stopped c0 o0 s2)
      from no_stop [OF failed(2) _ stopped(4) failed(7)] stopped(1) failed(2) show ?thesis by simp
    next
      case (removing c0 o0 s2 s3)
      from removal [of s0 s2 c0 o0 _ s3 "Throw e" s1] removing failed show ?thesis
        unfolding path_def by auto
    qed
  qed
qed

text \<open>
  The run above, through the theorem.
\<close>

theorem cleanup_session_deletion_fatal_witness:
  "Ran (ZellijDeleteSession (js ''wt-'' @ js ''a'')) 1 [] \<in>
     set (events_since (start [])
            (snd (cleanupWorktree (world no_session_answers NoFile) (js ''a'') (js ''.wt'') (start [])))) \<and>
   fst (cleanupWorktree (world no_session_answers NoFile) (js ''a'') (js ''.wt'') (start [])) = Exit 1 \<and>
   stderr (snd (cleanupWorktree (world no_session_answers NoFile) (js ''a'') (js ''.wt'') (start []))) =
     [js ''Error: '' @ js ''Failed to cleanup worktree: '' @
      toString_exn (world no_session_answers NoFile) (ShellError 1) @ [10]]"
proof -
  let ?s = "start []"
  let ?run = "cleanupWorktree (world no_session_answers NoFile) (js ''a'') (js ''.wt'') ?s"
  have run: "?run = (fst ?run, snd ?run)" by simp
  have ev: "Ran (ZellijDeleteSession (js ''wt-'' @ js ''a'')) 1 [] \<in> set (events_since ?s (snd ?run))"
    by (simp add: events_since_def no_session_run(2) start_simps)
  from cleanup_session_deletion_fatal [OF run ev] ev show ?thesis
    by (simp add: start_simps)
qed

text \<open>
  Claim C5. The reconciliation first checks out main (\<^verbatim>\<open>git checkout main\<close>, status 0),
  then takes the listing that \<^verbatim>\<open>git rev-list main..label\<close> printed, trims it, splits it
  into lines, reverses them, and cherry-picks the entries that are not blank in that order,
  and does nothing else: the commits picked are always an initial part of that list, and
  the whole list when the reconciliation returns. For a listing of commit names, newest
  first, the list is the names oldest first.
\<close>

theorem reconcile_oldest_first:
  assumes "reconcile E label s = (r, s')"
    and "Ran (GitRevList label) 0 listing \<in> set (events_since s s')"
  shows "(\<exists>k. map fst (picked (events_since s s')) = take k (commits_to_pick listing)) \<and>
         (r = Return () \<longrightarrow>
            picked (events_since s s') = map (\<lambda>c. (c, 0)) (commits_to_pick listing)) \<and>
         (\<exists>o1 k outs rest. k \<le> length (commits_to_pick listing) \<and> length outs = k \<and>
            events_since s s' =
              [Ran GitCheckoutMain 0 o1, Ran (GitRevList label) 0 listing] @
              pick_events (take k (commits_to_pick listing)) outs @ rest \<and>
            (rest = [] \<and> k = length (commits_to_pick listing) \<and> r = Return () \<or>
             (\<exists>code out. code \<noteq> 0 \<and> k < length (commits_to_pick listing) \<and>
                rest = [Ran (GitCherryPick (commits_to_pick listing ! k)) code out] \<and>
                r = Throw (ShellError code)))) \<and>
         commits_to_pick listing = filter (\<lambda>c. trim c \<noteq> []) (rev (split 10 (trim listing))) \<and>
         (\<forall>newest_first. listing = rev_list_output newest_first \<and> list_all commit_name newest_first \<longrightarrow>
            commits_to_pick listing = rev newest_first)"
proof -
  have def: "commits_to_pick listing = filter (\<lambda>c. trim c \<noteq> []) (rev (split 10 (trim listing)))"
    by (simp add: commits_to_pick_def nonblank_def)
  have fmt: "\<forall>newest_first. listing = rev_list_output newest_first \<and> list_all commit_name newest_first \<longrightarrow>
            commits_to_pick listing = rev newest_first"
    by (auto simp: list_all_iff commits_to_pick_rev_list_output)
  have "(\<exists>k. map fst (picked (events_since s s')) = take k (commits_to_pick listing)) \<and>
         (r = Return () \<longrightarrow>
            picked (events_since s s') = map (\<lambda>c. (c, 0)) (commits_to_pick listing)) \<and>
         (\<exists>o1 k outs rest. k \<le> length (commits_to_pick listing) \<and> length outs = k \<and>
            events_since s s' =
              [Ran GitCheckoutMain 0 o1, Ran (GitRevList label) 0 listing] @
              pick_events (take k (commits_to_pick listing)) outs @ rest \<and>
            (rest = [] \<and> k = length (commits_to_pick listing) \<and> r = Return () \<or>
             (\<exists>code out. code \<noteq> 0 \<and> k < length (commits_to_pick listing) \<and>
                rest = [Ran (GitCherryPick (commits_to_pick listing ! k)) code out] \<and>
                r = Throw (ShellError code))))"
    using assms(1)
  proof (cases rule: reconcileE)
    case (checkout code out)
    with assms(2) show ?thesis by (simp add: events_since_def)
  next
    case (revlist o1 code out)
    with assms(2) show ?thesis by (simp add: events_since_def)
  next
    case (picked_all o1 listing' outs)
    with assms(2) have "listing' = listing"
      by (auto simp: events_since_def dest: in_pick_events)
    with picked_all have "picked (events_since s s') = map (\<lambda>c. (c, 0)) (commits_to_pick listing)"
      by (simp add: events_since_def picked_pick_events)
    moreover from this have "map fst (picked (events_since s s')) =
        take (length (commits_to_pick listing)) (commits_to_pick listing)"
      by (simp add: comp_def)
    moreover from picked_all \<open>listing' = listing\<close> have "events_since s s' =
        [Ran GitCheckoutMain 0 o1, Ran (GitRevList label) 0 listing] @
        pick_events (take (length (commits_to_pick listing)) (commits_to_pick listing)) outs @ []"
      "length outs = length (commits_to_pick listing)"
      by (simp_all add: events_since_def)
    ultimately show ?thesis using picked_all(1) by blast
  next
    case (conflict o1 listing' k outs code out)
    with assms(2) have "listing' = listing"
      by (auto simp: events_since_def dest: in_pick_events)
    with conflict have "picked (events_since s s') =
        map (\<lambda>c. (c, 0)) (take k (commits_to_pick listing)) @ [(commits_to_pick listing ! k, code)]"
      by (simp add: events_since_def picked_pick_events_take)
    with conflict(3) \<open>listing' = listing\<close>
    have "map fst (picked (events_since s s')) = take (Suc k) (commits_to_pick listing)"
      by (simp add: comp_def take_Suc_conv_app_nth)
    moreover from conflict \<open>listing' = listing\<close> have "events_since s s' =
        [Ran GitCheckoutMain 0 o1, Ran (GitRevList label) 0 listing] @
        pick_events (take k (commits_to_pick listing)) outs @
        [Ran (GitCherryPick (commits_to_pick listing ! k)) code out]"
      "k \<le> length (commits_to_pick listing)" "k < length (commits_to_pick listing)" "length outs = k"
      by (simp_all add: events_since_def)
    ultimately show ?thesis using conflict(1,2) by blast
  qed
  with def fmt show ?thesis by blast
qed

lemma clean_run:
  "fst (reconcile (world clean_answers NoFile) (js ''a'') (start [])) = Return ()"
  "trace (snd (reconcile (world clean_answers NoFile) (js ''a'') (start []))) =
     [Ran GitCheckoutMain 0 [],
      Ran (GitRevList (js ''a'')) 0 (rev_list_output [js ''c3'', js ''c2'', js ''c1'']),
      Ran (GitCherryPick (js ''c1'')) 0 [],
      Ran (GitCherryPick (js ''c2'')) 0 [],
      Ran (GitCherryPick (js ''c3'')) 0 []]"
  by (simp_all add: run_defs clean_answers_def rev_list_output_def)

text \<open>
  The branch has c1, c2, c3 in chronological order; the listing is c3, c2, c1 and, after
  the checkout of main, the cherry-picks are c1, c2, c3.
\<close>

theorem reconcile_oldest_first_witness:
  "Ran (GitRevList (js ''a'')) 0 (rev_list_output [js ''c3'', js ''c2'', js ''c1'']) \<in>
     set (events_since (start []) (snd (reconcile (world clean_answers NoFile) (js ''a'') (start [])))) \<and>
   list_all commit_name [js ''c3'', js ''c2'', js ''c1''] \<and>
   fst (reconcile (world clean_answers NoFile) (js ''a'') (start [])) = Return () \<and>
   picked (events_since (start []) (snd (reconcile (world clean_answers NoFile) (js ''a'') (start [])))) =
     [(js ''c1'', 0), (js ''c2'', 0), (js ''c3'', 0)] \<and>
   events_since (start []) (snd (reconcile (world clean_answers NoFile) (js ''a'') (start []))) =
     [Ran GitCheckoutMain 0 [],
      Ran (GitRevList (js ''a'')) 0 (rev_list_output [js ''c3'', js ''c2'', js ''c1'']),
      Ran (GitCherryPick (js ''c1'')) 0 [],
      Ran (GitCherryPick (js ''c2'')) 0 [],
      Ran (GitCherryPick (js ''c3'')) 0 []]"
proof -
  let ?s = "start []"
  let ?run = "reconcile (world clean_answers NoFile) (js ''a'') ?s"
  let ?names = "[js ''c3'', js ''c2'', js ''c1'']"
  have run: "?run = (fst ?run, snd ?run)" by simp
  have ev: "Ran (GitRevList (js ''a'')) 0 (rev_list_output ?names) \<in> set (events_since ?s (snd ?run))"
    by (simp add: events_since_def clean_run(2) start_simps)
  have names: "list_all commit_name ?names"
    by (simp add: commit_name_def isWhiteSpace_def js_Cons js_Nil)
  note law = reconcile_oldest_first [OF run ev]
  from law have "rev_list_output ?names = rev_list_output ?names \<and> list_all commit_name ?names \<longrightarrow>
      commits_to_pick (rev_list_output ?names) = rev ?names"
    by (elim conjE allE [of _ ?names])
  with names have order: "commits_to_pick (rev_list_output ?names) = rev ?names"
    by (simp only: simp_thms)
  from law clean_run(1) have "picked (events_since ?s (snd ?run)) =
      map (\<lambda>c. (c, 0)) (commits_to_pick (rev_list_output ?names))"
    by (elim conjE impE) simp_all
  then have "picked (events_since ?s (snd ?run)) = map (\<lambda>c. (c, 0)) (rev ?names)"
    by (simp only: order)
  moreover have "events_since ?s (snd ?run) =
     [Ran GitCheckoutMain 0 [],
      Ran (GitRevList (js ''a'')) 0 (rev_list_output ?names),
      Ran (GitCherryPick (js ''c1'')) 0 [],
      Ran (GitCherryPick (js ''c2'')) 0 [],
      Ran (GitCherryPick (js ''c3'')) 0 []]"
    by (simp add: events_since_def clean_run(2) start_simps)
  ultimately show ?thesis using ev names clean_run(1) by simp
qed

section \<open>The batch cleanup\<close>

lemmas batch_defs =
  cleanupAllWorktrees_def getAllWorktrees_def startsWith_def substring_def batch_answers_def

lemma batch_labels:
  "fst (getAllWorktrees (world batch_answers NoFile) (js ''.wt'') (start [js ''y'' @ [10]])) =
     Return [js ''a'', js ''b'']"
  by (simp add: run_defs batch_defs)

lemma batch_run:
  "fst (cleanupAllWorktrees (world batch_answers NoFile) (js ''.wt'') (start [js ''y'' @ [10]])) = Exit 1"
  "trace (snd (cleanupAllWorktrees (world batch_answers NoFile) (js ''.wt'') (start [js ''y'' @ [10]]))) =
     [Ran GitWorktreeList 0
        (js ''worktree /repo/.wt/worktrees/a'' @ [10] @ js ''worktree /repo/.wt/worktrees/b'' @ [10]),
      Ran (GitLog (js ''a'')) 0 [],
      Ran (GitWorktreeRemove (js ''/repo/.wt/worktrees/a'')) 1 []]"
  by (simp_all add: run_defs batch_defs)

lemma andThen_Return [simp]: "andThen (Return x, s) f = f x s"
  by (simp add: andThen_def)

lemma andThen_not_Return:
  "r \<noteq> Return () \<Longrightarrow> andThen (r, s) f = (case r of Throw e \<Rightarrow> Throw e | Exit n \<Rightarrow> Exit n | _ \<Rightarrow> Blocked, s)"
  by (cases r) (simp_all add: andThen_def)

lemma andThen_assoc:
  "andThen (andThen m f) g = andThen m (\<lambda>x s. andThen (f x s) g)"
  by (cases m; cases "fst m") (auto simp: andThen_def split: result.splits)

lemma cleanup_each_append:
  "cleanup_each E d (xs @ ys) s = andThen (cleanup_each E d xs s) (\<lambda>_ s. cleanup_each E d ys s)"
proof (induction xs arbitrary: s)
  case Nil
  show ?case by simp
next
  case (Cons x xs)
  have "cleanup_each E d (xs @ ys) =
      (\<lambda>s. andThen (cleanup_each E d xs s) (\<lambda>_ s. cleanup_each E d ys s))"
    by (rule ext) (rule Cons.IH)
  then show ?case by (simp add: andThen_assoc)
qed

lemma cleanup_steps_stderr:
  assumes "cleanup_steps E label path s = (r, s')"
  shows "stderr s' = stderr s"
  using assms
proof (cases rule: cleanup_stepsE)
  case (stopped c0 o0 s1)
  then show ?thesis by (auto elim: offer_cherry_pick_events)
next
  case (removing c0 o0 s1 s2)
  from removing(4) have "stderr s2 = stderr s1" by (auto elim: offer_cherry_pick_events)
  moreover from removing(5) have "stderr s' = stderr s2" by (auto elim: remove_steps_events)
  ultimately show ?thesis using removing(2) by simp
qed

lemma cleanupWorktree_outcome:
  assumes "cleanupWorktree E label configDir s = (r, s')"
  shows "(r = Return () \<or> r = Blocked \<or> r = Exit 1) \<and> (r = Exit 1 \<longleftrightarrow> stderr s' \<noteq> stderr s)"
  using assms
proof (cases rule: cleanupWorktreeE)
  case absent
  then show ?thesis by simp
next
  case (finished s0)
  from finished(5) have "stderr s' = stderr s0" by (rule cleanup_steps_stderr)
  with finished show ?thesis by auto
next
  case (failed s0 s1 e)
  from failed(5) have "stderr s1 = stderr s0" by (rule cleanup_steps_stderr)
  with failed show ?thesis by simp
qed

text \<open>
  Claim C3, amended. Once the operator has confirmed the batch, \<open>cleanupAllWorktrees\<close>
  runs the cleanup of the registered labels one after the other, in the order of the
  registry, and stops at the first one that does not return: a cleanup that reports an
  error ends the process with status 1, in the state in which that cleanup left it, so the
  labels after it are not cleaned up. When the cleanup of a label returns, the batch goes
  on with the labels after it.
\<close>

theorem cleanupAll_stops_at_first_error:
  assumes "getAllWorktrees E configDir s = (Return (before @ label # rest), s1)"
    and "promptUser (js ''Do you want to clean up all worktrees?'')
           (console_log (js ''Found '' @ toString_nat (length (before @ label # rest)) @
                         js '' worktree(s): '' @ join (before @ label # rest) (js '', '')) s1) =
         (Return True, s2)"
    and "cleanup_each E configDir before s2 = (Return (), s3)"
    and "cleanupWorktree E label configDir
           (console_log ([10] @ js ''--- Cleaning up worktree: '' @ label @ js '' ---'') s3) = (r, s4)"
  shows "(r = Return () \<or> r = Blocked \<or> r = Exit 1) \<and>
         (r = Exit 1 \<longleftrightarrow> stderr s4 \<noteq> stderr s3) \<and>
         (r \<noteq> Return () \<longrightarrow> cleanupAllWorktrees E configDir s = (r, s4)) \<and>
         (r = Return () \<longrightarrow> cleanupAllWorktrees E configDir s =
            andThen (cleanup_each E configDir rest s4) (\<lambda>_ s.
              (Return (), console_log ([10, 10003] @ js '' All worktrees cleaned up successfully'') s)))"
proof -
  have "stderr (console_log ([10] @ js ''--- Cleaning up worktree: '' @ label @ js '' ---'') s3) = stderr s3"
    by (simp add: console_log_def)
  with cleanupWorktree_outcome [OF assms(4)]
  have outcome: "r = Return () \<or> r = Blocked \<or> r = Exit 1" and err: "r = Exit 1 \<longleftrightarrow> stderr s4 \<noteq> stderr s3"
    by auto
  have each: "cleanup_each E configDir (before @ label # rest) s2 =
      andThen (r, s4) (\<lambda>_ s. cleanup_each E configDir rest s)"
    using assms(3,4) by (simp add: cleanup_each_append)
  have all: "cleanupAllWorktrees E configDir s =
      andThen (cleanup_each E configDir (before @ label # rest) s2) (\<lambda>_ s.
        (Return (), console_log ([10, 10003] @ js '' All worktrees cleaned up successfully'') s))"
    using assms(1,2) by (simp add: cleanupAllWorktrees_def)
  have stop: "cleanupAllWorktrees E configDir s = (r, s4)" if "r \<noteq> Return ()"
    using that outcome by (auto simp: all each andThen_def)
  have continue: "cleanupAllWorktrees E configDir s =
      andThen (cleanup_each E configDir rest s4) (\<lambda>_ s.
        (Return (), console_log ([10, 10003] @ js '' All worktrees cleaned up successfully'') s))"
    if "r = Return ()"
    using that by (simp add: all each)
  from outcome err stop continue show ?thesis by blast
qed

text \<open>
  Claim C3, as stated, fails. Two worktrees, \<^verbatim>\<open>a\<close> and \<^verbatim>\<open>b\<close>, are registered and the
  operator confirms; removing the worktree of \<^verbatim>\<open>a\<close> fails. The process exits with
  status 1 and no command was run for \<^verbatim>\<open>b\<close>.
\<close>

theorem batch_cleanup_aborts:
  "fst (getAllWorktrees (world batch_answers NoFile) (js ''.wt'') (start [js ''y'' @ [10]])) =
     Return [js ''a'', js ''b''] \<and>
   affirmative (js ''y'' @ [10]) \<and>
   fst (cleanupAllWorktrees (world batch_answers NoFile) (js ''.wt'') (start [js ''y'' @ [10]])) = Exit 1 \<and>
   trace (snd (cleanupAllWorktrees (world batch_answers NoFile) (js ''.wt'') (start [js ''y'' @ [10]]))) =
     [Ran GitWorktreeList 0
        (js ''worktree /repo/.wt/worktrees/a'' @ [10] @ js ''worktree /repo/.wt/worktrees/b'' @ [10]),
      Ran (GitLog (js ''a'')) 0 [],
      Ran (GitWorktreeRemove (js ''/repo/.wt/worktrees/a'')) 1 []]"
  using batch_labels batch_run by (simp add: run_defs)


text \<open>
  The same batch, through the theorem: nothing before \<^verbatim>\<open>a\<close>, and \<^verbatim>\<open>b\<close> after it.
\<close>

theorem cleanupAll_stops_at_first_error_witness:
  "fst (getAllWorktrees (world batch_answers NoFile) (js ''.wt'') (start [js ''y'' @ [10]])) =
     Return ([] @ js ''a'' # [js ''b'']) \<and>
   fst (cleanupAllWorktrees (world batch_answers NoFile) (js ''.wt'') (start [js ''y'' @ [10]])) = Exit 1"
proof -
  let ?E = "world batch_answers NoFile"
  let ?d = "js ''.wt''"
  let ?s = "start [js ''y'' @ [10]]"
  let ?labels = "[] @ js ''a'' # [js ''b'']"
  let ?s1 = "snd (getAllWorktrees ?E ?d ?s)"
  let ?ask = "promptUser (js ''Do you want to clean up all worktrees?'')
           (console_log (js ''Found '' @ toString_nat (length ?labels) @
                         js '' worktree(s): '' @ join ?labels (js '', '')) ?s1)"
  let ?s2 = "snd ?ask"
  let ?one = "cleanupWorktree ?E (js ''a'') ?d
           (console_log ([10] @ js ''--- Cleaning up worktree: '' @ js ''a'' @ js '' ---'') ?s2)"
  have labels: "fst (getAllWorktrees ?E ?d ?s) = Return ?labels"
    using batch_labels by simp
  then have h1: "getAllWorktrees ?E ?d ?s = (Return ?labels, ?s1)"
    by (metis prod.collapse)
  have "fst ?ask = Return True"
    by (simp add: run_defs batch_defs)
  then have h2: "?ask = (Return True, ?s2)"
    by (metis prod.collapse)
  have h3: "cleanup_each ?E ?d [] ?s2 = (Return (), ?s2)"
    by simp
  have h4: "?one = (fst ?one, snd ?one)"
    by simp
  have r: "fst ?one = Exit 1"
    by (simp add: run_defs batch_defs)
  note law = cleanupAll_stops_at_first_error [OF h1 h2 h3 h4]
  from law have stop: "fst ?one \<noteq> Return () \<longrightarrow> cleanupAllWorktrees ?E ?d ?s = (fst ?one, snd ?one)"
    by (elim conjE)
  from r have "fst ?one \<noteq> Return ()"
    by (simp only: result.distinct not_False_eq_True)
  with stop have "cleanupAllWorktrees ?E ?d ?s = (fst ?one, snd ?one)"
    by (rule mp)
  then have "fst (cleanupAllWorktrees ?E ?d ?s) = fst ?one"
    by (simp only: fst_conv)
  with r have "fst (cleanupAllWorktrees ?E ?d ?s) = Exit 1"
    by (simp only:)
  with labels show ?thesis by (rule conjI)
qed

section \<open>Label validation at the entry points\<close>

lemma labelAlphabet_ranges:
  "labelAlphabet = [65..<91] @ [97..<123] @ [48..<58] @ [95, 45]"
  by (simp add: labelAlphabet_def js_Cons js_Nil upt_rec_numeral)

lemma labelChar_alphabet: "labelChar c \<longleftrightarrow> c \<in> set labelAlphabet"
  unfolding labelAlphabet_ranges by (auto simp: labelChar_def)

lemma labelRegexTest_alphabet:
  "labelRegexTest label \<longleftrightarrow> label \<noteq> [] \<and> set label \<subseteq> set labelAlphabet"
  by (auto simp: labelRegexTest_def list_all_iff labelChar_alphabet)

text \<open>
  Claim C8, amended. The check accepts a label if and only if it is a non-empty string
  over the alphabet \<^verbatim>\<open>[A-Za-z0-9_-]\<close>. The \<^verbatim>\<open>open\<close> command rejects every other string, and
  the \<^verbatim>\<open>new\<close> and \<^verbatim>\<open>cleanup\<close> commands reject every other non-empty string, with the
  error message on standard error and exit status 1, nothing else of the state having
  changed. An accepted label passes the check of each of the three commands. (An empty
  label given to \<^verbatim>\<open>new\<close> or \<^verbatim>\<open>cleanup\<close> counts as no label: \<^verbatim>\<open>new\<close> generates one and
  \<^verbatim>\<open>cleanup\<close> cleans up all worktrees.)
\<close>

theorem label_validation:
  "(labelRegexTest label \<longleftrightarrow> label \<noteq> [] \<and> set label \<subseteq> set labelAlphabet) \<and>
   (\<not> labelRegexTest label \<longrightarrow>
      command_open E label configDir s =
        (Exit 1, s\<lparr>stderr := stderr s @ [js ''Error: '' @ labelMessage @ [10]]\<rparr>)) \<and>
   (\<not> labelRegexTest label \<and> label \<noteq> [] \<longrightarrow>
      command_new E (Some label) configDir s =
        (Exit 1, s\<lparr>stderr := stderr s @ [js ''Error: '' @ labelMessage @ [10]]\<rparr>) \<and>
      command_cleanup E (Some label) configDir s =
        (Exit 1, s\<lparr>stderr := stderr s @ [js ''Error: '' @ labelMessage @ [10]]\<rparr>)) \<and>
   (labelRegexTest label \<longrightarrow>
      command_new E (Some label) configDir s = create_validated E label configDir s \<and>
      command_open E label configDir s = openWorktree E label configDir s \<and>
      command_cleanup E (Some label) configDir s = cleanupWorktree E label configDir s)"
proof -
  have accept: "labelRegexTest label \<Longrightarrow> label \<noteq> []"
    by (simp add: labelRegexTest_def)
  show ?thesis
    using accept
    by (auto simp: labelRegexTest_alphabet [symmetric] command_open_def command_new_def
        command_cleanup_def createWorktree_def showError_def andThen_def)
qed

text \<open>
  The label \<^verbatim>\<open>a/b\<close> is rejected by the three commands; \<^verbatim>\<open>feature-auth_2\<close> is accepted.
\<close>

theorem label_validation_witness:
  "\<not> labelRegexTest (js ''a/b'') \<and> js ''a/b'' \<noteq> [] \<and>
   command_open (world quiet_answers NoFile) (js ''a/b'') (js ''.wt'') (start []) =
     (Exit 1, (start [])\<lparr>stderr := stderr (start []) @ [js ''Error: '' @ labelMessage @ [10]]\<rparr>) \<and>
   command_new (world quiet_answers NoFile) (Some (js ''a/b'')) (js ''.wt'') (start []) =
     (Exit 1, (start [])\<lparr>stderr := stderr (start []) @ [js ''Error: '' @ labelMessage @ [10]]\<rparr>) \<and>
   command_cleanup (world quiet_answers NoFile) (Some (js ''a/b'')) (js ''.wt'') (start []) =
     (Exit 1, (start [])\<lparr>stderr := stderr (start []) @ [js ''Error: '' @ labelMessage @ [10]]\<rparr>) \<and>
   labelRegexTest (js ''feature-auth_2'') \<and>
   command_cleanup (world quiet_answers NoFile) (Some (js ''feature-auth_2'')) (js ''.wt'') (start []) =
     cleanupWorktree (world quiet_answers NoFile) (js ''feature-auth_2'') (js ''.wt'') (start [])"
proof -
  have bad: "\<not> labelRegexTest (js ''a/b'')" "js ''a/b'' \<noteq> []"
    by (simp_all add: labelRegexTest_def labelChar_def js_Cons js_Nil)
  have good: "labelRegexTest (js ''feature-auth_2'')"
    by (simp add: labelRegexTest_def labelChar_def js_Cons js_Nil)
  note law = label_validation [of _ "world quiet_answers NoFile" "js ''.wt''" "start []"]
  from law [of "js ''a/b''"] bad law [of "js ''feature-auth_2''"] good
  show ?thesis by (simp only: simp_thms)
qed

lemma empty_label_runs:
  "fst (command_cleanup (world quiet_answers NoFile) (Some []) (js ''.wt'') (start [])) = Return ()"
  "trace (snd (command_cleanup (world quiet_answers NoFile) (Some []) (js ''.wt'') (start []))) =
     [Ran GitWorktreeList 0 []]"
  "stderr (snd (command_cleanup (world quiet_answers NoFile) (Some []) (js ''.wt'') (start []))) = []"
  by (simp_all add: command_cleanup_def cleanupAllWorktrees_def getAllWorktrees_def quiet_answers_def run_defs)

lemma empty_label_new:
  "fst (command_new (world quiet_answers (Exports (Some plain_config))) (Some []) (js ''.wt'')
          (start [js ''n'' @ [10]])) = Return ()"
  "trace (snd (command_new (world quiet_answers (Exports (Some plain_config))) (Some []) (js ''.wt'')
          (start [js ''n'' @ [10]]))) =
     [Spawned [js ''zellij'', js ''-n'', js ''.wt'' @ js ''/'' @ js ''./layout.kdl'', js ''-s'',
               js ''wt-'' @ js ''calm-fox'']
        (js ''/repo'' @ js ''/'' @ js ''.wt'' @ js ''/worktrees/'' @ js ''calm-fox'') (Inr 0)]"
  "stderr (snd (command_new (world quiet_answers (Exports (Some plain_config))) (Some []) (js ''.wt'')
          (start [js ''n'' @ [10]]))) = []"
  by (simp_all add: command_new_def createWorktree_def create_validated_def loadConfig_def
      provision_env_def session_steps_def spawn_exited_def plain_config_def labelRegexTest_def
      labelChar_def quiet_answers_def run_defs)

text \<open>
  Claim C8, as stated, fails for the empty string: the check rejects it, but
  \<^verbatim>\<open>cleanup ""\<close> runs the cleanup of all worktrees (it lists the worktrees and returns),
  and \<^verbatim>\<open>new ""\<close> goes on with a generated label; neither reports an error.
\<close>

theorem empty_label_not_rejected:
  "\<not> labelRegexTest [] \<and>
   fst (command_cleanup (world quiet_answers NoFile) (Some []) (js ''.wt'') (start [])) = Return () \<and>
   trace (snd (command_cleanup (world quiet_answers NoFile) (Some []) (js ''.wt'') (start []))) =
     [Ran GitWorktreeList 0 []] \<and>
   stderr (snd (command_cleanup (world quiet_answers NoFile) (Some []) (js ''.wt'') (start []))) = [] \<and>
   fst (command_new (world quiet_answers (Exports (Some plain_config))) (Some []) (js ''.wt'')
          (start [js ''n'' @ [10]])) = Return () \<and>
   stderr (snd (command_new (world quiet_answers (Exports (Some plain_config))) (Some []) (js ''.wt'')
          (start [js ''n'' @ [10]]))) = []"
  using empty_label_runs empty_label_new by (simp add: labelRegexTest_def)

section \<open>Creating a worktree that exists\<close>








lemma console_log_simps [simp]:
  "trace (console_log m s) = trace s" "stderr (console_log m s) = stderr s"
  "stdin (console_log m s) = stdin s"
  by (simp_all add: console_log_def)

















section \<open>The confirmation gates\<close>
























end
